theory Spec2Isabelle
  imports Complex_Main "HOL-Library.Monad_Syntax" "HOL-Library.Multiset"
begin

text \<open>
  A browser extension that colours the icon of each tab by the time since the tab was last
  active. The repository holds two variants of its background worker: \<open>background.js\<close>
  and a later one, which passes the thresholds to \<open>getAgeColor\<close> as parameters,
  rounds the colour components, keeps a history of the tabs it closed and can delete old
  tabs by itself. A definition named after a function models the later variant; the suffix
  \<open>_bg\<close> marks the function of \<open>background.js\<close> where the two differ.

  Modelled are the age classifier, the colour conversion, the handlers of the tab events
  as they change \<open>tabData\<close>, the deleted-tab history and the bulk operations with
  the calls they make. Writes to the store, log output and the drawing of the icon are
  left out.
\<close>

section \<open>Host-language values\<close>

text \<open>
  The extension is JavaScript. Its numbers are modelled as exact reals (the thresholds,
  the minutes of inactivity and the colour components), so without rounding error, its
  integers as \<open>int\<close>, its strings as lists of 8-bit characters. \<open>NaN\<close> arises
  only from \<open>parseFloat\<close> and is modelled where it does. \<open>Math.round\<close> rounds
  to the nearest integer, a half upwards.
\<close>

definition jsRound :: "real \<Rightarrow> int" where
  "jsRound x = \<lfloor>x + 1 / 2\<rfloor>"

definition digitChar :: "nat \<Rightarrow> char" where
  "digitChar n = ''0123456789abcdef'' ! n"

text \<open>\<open>Number.prototype.toString(radix)\<close> on an integer, for radix 10 and 16.\<close>

function natToString :: "nat \<Rightarrow> nat \<Rightarrow> string" where
  "natToString b n =
     (if b < 2 \<or> n < b then [digitChar n]
      else natToString b (n div b) @ [digitChar (n mod b)])"
  by pat_completeness auto
termination
  by (relation "measure (\<lambda>(b, n). n)") auto

declare natToString.simps [simp del]

definition intToString :: "nat \<Rightarrow> int \<Rightarrow> string" where
  "intToString b i =
     (if i < 0 then CHR ''-'' # natToString b (nat (- i)) else natToString b (nat i))"

section \<open>Age classifier: \<open>getAgeColor\<close>\<close>

record hsl =
  hue :: real
  saturation :: real
  lightness :: real

text \<open>
  The four branches of \<open>getAgeColor\<close>, which assign the local variables
  \<open>hue\<close>, \<open>saturation\<close> and \<open>lightness\<close>. Both variants of the
  function (the one taking the thresholds as parameters and the one of
  \<open>background.js\<close> reading them from the settings) have this body. The second
  branch is entered only with \<open>freshThreshold < minutesInactive \<le> staleThreshold\<close>
  and the third only with \<open>staleThreshold < minutesInactive \<le> oldThreshold\<close>, so
  neither division is ever by zero.
\<close>

definition getAgeHSL :: "real \<Rightarrow> real \<Rightarrow> real \<Rightarrow> real \<Rightarrow> hsl" where
  "getAgeHSL minutesInactive freshThreshold staleThreshold oldThreshold =
     (if minutesInactive \<le> freshThreshold then
        \<lparr>hue = 140, saturation = 70, lightness = 45\<rparr>
      else if minutesInactive \<le> staleThreshold then
        (let progress = (minutesInactive - freshThreshold) / (staleThreshold - freshThreshold)
         in \<lparr>hue = 140 - progress * 100,
             saturation = 70 + progress * 15,
             lightness = 45 + progress * 5\<rparr>)
      else if minutesInactive \<le> oldThreshold then
        (let progress = (minutesInactive - staleThreshold) / (oldThreshold - staleThreshold)
         in \<lparr>hue = 40 - progress * 40,
             saturation = 85,
             lightness = 50 - progress * 5\<rparr>)
      else
        \<lparr>hue = 0, saturation = 80, lightness = 40\<rparr>)"

text \<open>
  The returned template string of the variant with threshold parameters: every component
  goes through \<open>Math.round\<close>.
\<close>

definition hslString :: "string \<Rightarrow> string \<Rightarrow> string \<Rightarrow> string" where
  "hslString h s l = ''hsl('' @ h @ '', '' @ s @ ''%, '' @ l @ ''%)''"

definition getAgeColor :: "real \<Rightarrow> real \<Rightarrow> real \<Rightarrow> real \<Rightarrow> string" where
  "getAgeColor minutesInactive freshThreshold staleThreshold oldThreshold =
     (let c = getAgeHSL minutesInactive freshThreshold staleThreshold oldThreshold
      in hslString (intToString 10 (jsRound (hue c)))
                   (intToString 10 (jsRound (saturation c)))
                   (intToString 10 (jsRound (lightness c))))"

section \<open>Colour conversion: \<open>hslToHex\<close>\<close>

subsection \<open>Matching the pattern\<close>

text \<open>
  The character classes of the two regular expressions: \<open>\d\<close>, \<open>[\d.]\<close> and
  \<open>\s\<close> (on 8-bit characters: tab, line feed, vertical tab, form feed, carriage
  return, space and no-break space).
\<close>

definition isDigit :: "char \<Rightarrow> bool" where
  "isDigit c = (c \<in> set ''0123456789'')"

definition isDigitOrDot :: "char \<Rightarrow> bool" where
  "isDigitOrDot c = (isDigit c \<or> c = CHR ''.'')"

definition isSpace :: "char \<Rightarrow> bool" where
  "isSpace c = (c \<in> set [CHR 0x09, CHR 0x0A, CHR 0x0B, CHR 0x0C, CHR 0x0D, CHR 0x20, CHR 0xA0])"

text \<open>
  Pieces of a pattern, each consuming a prefix of the input: a literal, one or more
  characters of a class (the captured group and the rest), any number of spaces.
  In both patterns a repetition is followed by a character outside the repeated class, so
  the longest repetition is the only one that can lead to a match and no backtracking is
  needed.
\<close>

definition lit :: "string \<Rightarrow> string \<Rightarrow> string option" where
  "lit p s = (if take (length p) s = p then Some (drop (length p) s) else None)"

definition many1 :: "(char \<Rightarrow> bool) \<Rightarrow> string \<Rightarrow> (string \<times> string) option" where
  "many1 P s = (if takeWhile P s = [] then None else Some (takeWhile P s, dropWhile P s))"

definition skipSpace :: "string \<Rightarrow> string" where
  "skipSpace s = dropWhile isSpace s"

text \<open>
  The pattern \<^verbatim>\<open>hsl\(\s*([\d.]+)\s*,\s*([\d.]+)%\s*,\s*([\d.]+)%\s*\)\<close> at the
  start of the input, and then \<open>String.prototype.match\<close>: the first position of the
  input where the pattern matches, \<open>None\<close> for JavaScript's \<open>null\<close>.
\<close>

definition hslMatchAt :: "string \<Rightarrow> (string \<times> string \<times> string) option" where
  "hslMatchAt s0 = do {
     s1 \<leftarrow> lit ''hsl('' s0;
     (g1, s2) \<leftarrow> many1 isDigitOrDot (skipSpace s1);
     s3 \<leftarrow> lit '','' (skipSpace s2);
     (g2, s4) \<leftarrow> many1 isDigitOrDot (skipSpace s3);
     s5 \<leftarrow> lit ''%'' s4;
     s6 \<leftarrow> lit '','' (skipSpace s5);
     (g3, s7) \<leftarrow> many1 isDigitOrDot (skipSpace s6);
     s8 \<leftarrow> lit ''%'' s7;
     _ \<leftarrow> lit '')'' (skipSpace s8);
     Some (g1, g2, g3)
   }"

fun firstMatch :: "(string \<Rightarrow> 'a option) \<Rightarrow> string \<Rightarrow> 'a option" where
  "firstMatch pat [] = pat []"
| "firstMatch pat (c # cs) =
     (case pat (c # cs) of Some g \<Rightarrow> Some g | None \<Rightarrow> firstMatch pat cs)"

definition hslMatch :: "string \<Rightarrow> (string \<times> string \<times> string) option" where
  "hslMatch hslStr = firstMatch hslMatchAt hslStr"

text \<open>
  The pattern of \<open>background.js\<close>, \<^verbatim>\<open>hsl\((\d+),\s*(\d+)%,\s*(\d+)%\)\<close>:
  digits only, and spaces only after the commas.
\<close>

definition hslMatchAt_bg :: "string \<Rightarrow> (string \<times> string \<times> string) option" where
  "hslMatchAt_bg s0 = do {
     s1 \<leftarrow> lit ''hsl('' s0;
     (g1, s2) \<leftarrow> many1 isDigit s1;
     s3 \<leftarrow> lit '','' s2;
     (g2, s4) \<leftarrow> many1 isDigit (skipSpace s3);
     s5 \<leftarrow> lit ''%,'' s4;
     (g3, s6) \<leftarrow> many1 isDigit (skipSpace s5);
     _ \<leftarrow> lit ''%)'' s6;
     Some (g1, g2, g3)
   }"

definition hslMatch_bg :: "string \<Rightarrow> (string \<times> string \<times> string) option" where
  "hslMatch_bg hslStr = firstMatch hslMatchAt_bg hslStr"

text \<open>
  The two regular expressions of the source as sets of words, to compare the matchers
  with: a word of the expression with its three groups, and a string that holds such a
  word somewhere (the expressions are not anchored). This is the language of the
  expressions as written, not a notion of a well-formed colour: a group of the later
  variant may be \<open>.\<close> or \<open>1.2.3\<close>, and anything may stand before and after
  the word.
\<close>

definition patternWord :: "string \<Rightarrow> string \<Rightarrow> string \<Rightarrow> string \<Rightarrow> bool" where
  "patternWord g1 g2 g3 w \<longleftrightarrow>
     (\<exists>w0 w1 w2 w3 w4 w5.
        w = ''hsl('' @ w0 @ g1 @ w1 @ '','' @ w2 @ g2 @ ''%'' @ w3 @ '','' @ w4 @ g3 @ ''%'' @
              w5 @ '')'' \<and>
        list_all isSpace w0 \<and> g1 \<noteq> [] \<and> list_all isDigitOrDot g1 \<and> list_all isSpace w1 \<and>
        list_all isSpace w2 \<and> g2 \<noteq> [] \<and> list_all isDigitOrDot g2 \<and> list_all isSpace w3 \<and>
        list_all isSpace w4 \<and> g3 \<noteq> [] \<and> list_all isDigitOrDot g3 \<and> list_all isSpace w5)"

definition patternWord_bg :: "string \<Rightarrow> string \<Rightarrow> string \<Rightarrow> string \<Rightarrow> bool" where
  "patternWord_bg g1 g2 g3 w \<longleftrightarrow>
     (\<exists>w1 w2.
        w = ''hsl('' @ g1 @ '','' @ w1 @ g2 @ ''%,'' @ w2 @ g3 @ ''%)'' \<and>
        g1 \<noteq> [] \<and> list_all isDigit g1 \<and> list_all isSpace w1 \<and>
        g2 \<noteq> [] \<and> list_all isDigit g2 \<and> list_all isSpace w2 \<and>
        g3 \<noteq> [] \<and> list_all isDigit g3)"

definition holdsPatternWord :: "string \<Rightarrow> bool" where
  "holdsPatternWord s \<longleftrightarrow> (\<exists>pre w post g1 g2 g3. s = pre @ w @ post \<and> patternWord g1 g2 g3 w)"

definition holdsPatternWord_bg :: "string \<Rightarrow> bool" where
  "holdsPatternWord_bg s \<longleftrightarrow> (\<exists>pre w post g1 g2 g3. s = pre @ w @ post \<and> patternWord_bg g1 g2 g3 w)"

subsection \<open>Reading the numbers\<close>

definition digitsToNat :: "string \<Rightarrow> nat" where
  "digitsToNat ds = foldl (\<lambda>a c. 10 * a + (of_char c - 48)) 0 ds"

text \<open>\<open>parseInt\<close> on a captured group of \<open>background.js\<close>, a non-empty string of digits.\<close>

definition parseInt :: "string \<Rightarrow> nat" where
  "parseInt s = digitsToNat s"

text \<open>
  \<open>parseFloat\<close> on a captured group, a non-empty string of digits and dots: the
  longest prefix that is a decimal literal (digits, then possibly a dot and digits) is
  read; without a digit in it the result is \<open>NaN\<close>, here \<open>None\<close>.
\<close>

definition parseFloat :: "string \<Rightarrow> real option" where
  "parseFloat s =
     (let ip = takeWhile isDigit s;
          fp = (case dropWhile isDigit s of
                  [] \<Rightarrow> []
                | c # r \<Rightarrow> if c = CHR ''.'' then takeWhile isDigit r else [])
      in if ip = [] \<and> fp = [] then None
         else Some (real (digitsToNat ip) + real (digitsToNat fp) / 10 ^ length fp))"

subsection \<open>HSL to RGB\<close>

definition hue2rgb :: "real \<Rightarrow> real \<Rightarrow> real \<Rightarrow> real" where
  "hue2rgb p q t0 =
     (let t1 = (if t0 < 0 then t0 + 1 else t0);
          t = (if t1 > 1 then t1 - 1 else t1)
      in if t < 1 / 6 then p + (q - p) * 6 * t
         else if t < 1 / 2 then q
         else if t < 2 / 3 then p + (q - p) * (2 / 3 - t) * 6
         else p)"

text \<open>
  The channels \<open>r\<close>, \<open>g\<close>, \<open>b\<close> from \<open>h\<close>, \<open>s\<close>, \<open>l\<close>. The hue
  may be \<open>NaN\<close> (\<open>None\<close>): then every comparison of \<open>hue2rgb\<close> is false and
  it returns \<open>p\<close>.
\<close>

definition hslToRgb :: "real option \<Rightarrow> real \<Rightarrow> real \<Rightarrow> real \<times> real \<times> real" where
  "hslToRgb h s l =
     (if s = 0 then (l, l, l)
      else
        (let q = (if l < 1 / 2 then l * (1 + s) else l + s - l * s);
             p = 2 * l - q
         in case h of
              None \<Rightarrow> (p, p, p)
            | Some h' \<Rightarrow> (hue2rgb p q (h' + 1 / 3), hue2rgb p q h', hue2rgb p q (h' - 1 / 3))))"

definition toHex :: "real \<Rightarrow> string" where
  "toHex x =
     (let hex = intToString 16 (jsRound (x * 255))
      in if length hex = 1 then CHR ''0'' # hex else hex)"

definition rgbString :: "real \<times> real \<times> real \<Rightarrow> string" where
  "rgbString c = (case c of (r, g, b) \<Rightarrow> ''#'' @ toHex r @ toHex g @ toHex b)"

text \<open>
  \<open>hslToHex\<close> of the variant with threshold parameters. Without a match the fixed
  colour is returned. With a match whose saturation or lightness group holds no digit,
  \<open>s\<close> or \<open>l\<close> is \<open>NaN\<close>, so are the three channels, and each prints as
  \<open>NaN\<close>.
\<close>

definition hslToHex :: "string \<Rightarrow> string" where
  "hslToHex hslStr =
     (case hslMatch hslStr of
        None \<Rightarrow> ''#22c55e''
      | Some (m1, m2, m3) \<Rightarrow>
          (case (parseFloat m2, parseFloat m3) of
             (Some sPct, Some lPct) \<Rightarrow>
               rgbString (hslToRgb (map_option (\<lambda>hDeg. hDeg / 360) (parseFloat m1))
                                   (sPct / 100) (lPct / 100))
           | _ \<Rightarrow> ''#NaNNaNNaN''))"

text \<open>
  \<open>hslToHex\<close> of \<open>background.js\<close>: the groups hold digits only, so
  \<open>parseInt\<close> always gives a number.
\<close>

definition hslToHex_bg :: "string \<Rightarrow> string" where
  "hslToHex_bg hslStr =
     (case hslMatch_bg hslStr of
        None \<Rightarrow> ''#22c55e''
      | Some (m1, m2, m3) \<Rightarrow>
          rgbString (hslToRgb (Some (real (parseInt m1) / 360))
                              (real (parseInt m2) / 100) (real (parseInt m3) / 100)))"

section \<open>Settings and \<open>getAgeColor\<close> of \<open>background.js\<close>\<close>

record settings =
  freshThreshold :: real
  staleThreshold :: real
  oldThreshold :: real
  enabled :: bool
  indicatorStyle :: string
  indicatorSize :: real
  autoDeleteEnabled :: bool
  autoDeleteThreshold :: real

text \<open>
  In \<open>background.js\<close> the thresholds come from the settings and the template string
  holds the components as they are, not rounded. How a number prints is the host's
  number-to-string conversion, the parameter \<open>numToString\<close>.
\<close>

definition getAgeColor_bg :: "(real \<Rightarrow> string) \<Rightarrow> settings \<Rightarrow> real \<Rightarrow> string" where
  "getAgeColor_bg numToString st minutesInactive =
     (let c = getAgeHSL minutesInactive (freshThreshold st) (staleThreshold st) (oldThreshold st)
      in hslString (numToString (hue c)) (numToString (saturation c))
                   (numToString (lightness c)))"

text \<open>
  What is used of the host's conversion: it writes a number with digits, a dot, a sign
  and an exponent mark only, and a number that is not an integer never as digits alone
  (it has a dot, or an exponent with a minus sign).
\<close>

definition jsNumberFormat :: "(real \<Rightarrow> string) \<Rightarrow> bool" where
  "jsNumberFormat numToString \<longleftrightarrow>
     (\<forall>x. set (numToString x) \<subseteq> set ''0123456789.e+-'' \<and>
          (x \<notin> \<int> \<longrightarrow> \<not> list_all isDigit (numToString x)))"

text \<open>
  A conversion of this kind, to run the functions on: the integer part, and for a number
  that is not an integer a dot and up to sixteen decimals, cut off.
\<close>

fun fracDigits :: "nat \<Rightarrow> real \<Rightarrow> string" where
  "fracDigits 0 x = []"
| "fracDigits (Suc k) x =
     (if x = 0 then []
      else digitChar (nat \<lfloor>10 * x\<rfloor>) # fracDigits k (10 * x - of_int \<lfloor>10 * x\<rfloor>))"

definition decimalString :: "real \<Rightarrow> string" where
  "decimalString x =
     (let a = \<bar>x\<bar>;
          sign = (if x < 0 then [CHR ''-''] else []);
          whole = natToString 10 (nat \<lfloor>a\<rfloor>)
      in if a = of_int \<lfloor>a\<rfloor> then sign @ whole
         else sign @ whole @ [CHR ''.''] @ fracDigits 16 (a - of_int \<lfloor>a\<rfloor>))"

section \<open>Tab ledger\<close>

text \<open>
  The fields of the browser's tab object that the extension reads, and the record kept
  per tab in \<open>tabData\<close>. A field that may be \<open>undefined\<close> is an option.
  The tab object, the record and the history entry share field names in the source; here
  \<open>id\<close>, \<open>url\<close> and \<open>title\<close> of a tab are \<open>tabId\<close>, \<open>tabUrl\<close> and
  \<open>tabTitle\<close>, and those of a history entry begin with \<open>entry\<close>.
  Timestamps are readings of \<open>Date.now()\<close>, milliseconds as integers; the readings
  taken during one run of a handler are the argument \<open>now\<close>.
\<close>

record tab =
  tabId :: nat
  tabUrl :: "string option"
  tabTitle :: "string option"
  favIconUrl :: "string option"
  active :: bool
  pinned :: bool

record tabRecord =
  createdAt :: int
  lastActiveAt :: int
  url :: "string option"
  title :: "string option"

type_synonym ledger = "nat \<rightharpoonup> tabRecord"

definition onCreated :: "int \<Rightarrow> tab \<Rightarrow> ledger \<Rightarrow> ledger" where
  "onCreated now tb tabData =
     tabData(tabId tb \<mapsto>
       \<lparr>createdAt = now, lastActiveAt = now, url = tabUrl tb, title = tabTitle tb\<rparr>)"

definition onActivated :: "int \<Rightarrow> nat \<Rightarrow> ledger \<Rightarrow> ledger" where
  "onActivated now tid tabData =
     (case tabData tid of
        Some d \<Rightarrow> tabData(tid \<mapsto> d\<lparr>lastActiveAt := now\<rparr>)
      | None \<Rightarrow>
          tabData(tid \<mapsto> \<lparr>createdAt = now, lastActiveAt = now, url = None, title = None\<rparr>))"

text \<open>\<open>status\<close> is \<open>changeInfo.status\<close>, \<open>tb\<close> the tab passed to the listener.\<close>

definition onUpdated :: "nat \<Rightarrow> string option \<Rightarrow> tab \<Rightarrow> ledger \<Rightarrow> ledger" where
  "onUpdated tid status tb tabData =
     (if status = Some ''complete'' then
        (case tabData tid of
           Some d \<Rightarrow> tabData(tid \<mapsto> d\<lparr>url := tabUrl tb, title := tabTitle tb\<rparr>)
         | None \<Rightarrow> tabData)
      else tabData)"

definition onRemoved :: "nat \<Rightarrow> ledger \<Rightarrow> ledger" where
  "onRemoved tid tabData = tabData(tid := None)"

text \<open>
  The age of a tab as \<open>updateTabIndicator\<close> computes it: nothing without a record,
  else \<open>(Date.now() - data.lastActiveAt) / (1000 * 60)\<close>.
\<close>

definition ageMinutes :: "ledger \<Rightarrow> nat \<Rightarrow> int \<Rightarrow> real option" where
  "ageMinutes tabData tid now =
     (case tabData tid of
        None \<Rightarrow> None
      | Some data \<Rightarrow> Some (real_of_int (now - lastActiveAt data) / (1000 * 60)))"

section \<open>Deleted-tab history\<close>

record deletedTabEntry =
  entryId :: int
  entryUrl :: "string option"
  entryTitle :: string
  favicon :: string
  deletedAt :: int
  entryLastActiveAt :: int
  autoDeleted :: bool

definition MAX_DELETED_HISTORY :: nat where
  "MAX_DELETED_HISTORY = 50"

text \<open>
  \<open>x || y\<close> takes \<open>y\<close> when \<open>x\<close> is missing, the empty string or the number
  zero.
\<close>

definition orString :: "string option \<Rightarrow> string \<Rightarrow> string" where
  "orString x y = (case x of None \<Rightarrow> y | Some v \<Rightarrow> if v = [] then y else v)"

definition lastActiveOr :: "tabRecord option \<Rightarrow> int \<Rightarrow> int" where
  "lastActiveOr tabInfo now =
     (case tabInfo of
        None \<Rightarrow> now
      | Some d \<Rightarrow> if lastActiveAt d = 0 then now else lastActiveAt d)"

definition historyEntry :: "int \<Rightarrow> tab \<Rightarrow> tabRecord option \<Rightarrow> deletedTabEntry" where
  "historyEntry now tb tabInfo =
     \<lparr>entryId = now,
      entryUrl = tabUrl tb,
      entryTitle = orString (tabTitle tb) ''Untitled'',
      favicon = orString (favIconUrl tb) [],
      deletedAt = now,
      entryLastActiveAt = lastActiveOr tabInfo now,
      autoDeleted = False\<rparr>"

text \<open>\<open>saveToDeletedHistory\<close> returns the new history and the entry it made.\<close>

definition saveToDeletedHistory ::
  "int \<Rightarrow> tab \<Rightarrow> tabRecord option \<Rightarrow> deletedTabEntry list \<Rightarrow> deletedTabEntry list \<times> deletedTabEntry"
where
  "saveToDeletedHistory now tb tabInfo deletedTabs =
     (let entry = historyEntry now tb tabInfo;
          unshifted = entry # deletedTabs
      in (if length unshifted > MAX_DELETED_HISTORY
          then take MAX_DELETED_HISTORY unshifted else unshifted,
          entry))"

section \<open>Bulk operations\<close>

text \<open>
  What the operations ask of the browser and of the history, in the order of the calls.
\<close>

datatype event =
    HistorySave tab
  | TabsRemove "nat list"
  | TabMove nat nat

subsection \<open>\<open>sortTabsByAge\<close>\<close>

definition tabsWithAge :: "int \<Rightarrow> ledger \<Rightarrow> tab list \<Rightarrow> (tab \<times> int) list" where
  "tabsWithAge now tabData tabs =
     map (\<lambda>tb. (tb, lastActiveOr (tabData (tabId tb)) now)) tabs"

text \<open>
  \<open>Array.prototype.sort\<close> is stable; with the comparator
  \<open>a.lastActiveAt - b.lastActiveAt\<close> it is the stable sort by that key.
\<close>

definition sortedByAge :: "int \<Rightarrow> ledger \<Rightarrow> tab list \<Rightarrow> (tab \<times> int) list" where
  "sortedByAge now tabData tabs = sort_key snd (tabsWithAge now tabData tabs)"

fun moveTabs :: "nat \<Rightarrow> (tab \<times> int) list \<Rightarrow> event list" where
  "moveTabs i [] = []"
| "moveTabs i (x # xs) = TabMove (tabId (fst x)) i # moveTabs (Suc i) xs"

definition sortTabsByAge :: "int \<Rightarrow> ledger \<Rightarrow> tab list \<Rightarrow> event list" where
  "sortTabsByAge now tabData tabs = moveTabs 0 (sortedByAge now tabData tabs)"

subsection \<open>\<open>closeOldTabs\<close>\<close>

definition tabsToClose :: "int \<Rightarrow> settings \<Rightarrow> ledger \<Rightarrow> tab list \<Rightarrow> tab list" where
  "tabsToClose now st tabData tabs =
     (let thresholdMs = oldThreshold st * 60 * 1000
      in filter (\<lambda>tb. case tabData (tabId tb) of
                         None \<Rightarrow> False
                       | Some data \<Rightarrow>
                           real_of_int (now - lastActiveAt data) > thresholdMs \<and> \<not> active tb)
           tabs)"

fun saveAll ::
  "int \<Rightarrow> ledger \<Rightarrow> tab list \<Rightarrow> deletedTabEntry list \<times> event list \<Rightarrow>
   deletedTabEntry list \<times> event list"
where
  "saveAll now tabData [] acc = acc"
| "saveAll now tabData (tb # tbs) (deletedTabs, evs) =
     saveAll now tabData tbs
       (fst (saveToDeletedHistory now tb (tabData (tabId tb)) deletedTabs),
        evs @ [HistorySave tb])"

text \<open>
  The variant with a history: every tab to close is saved, then one removal of all of
  them is requested. The result is the new history and the calls made.
\<close>

definition closeOldTabs ::
  "int \<Rightarrow> settings \<Rightarrow> ledger \<Rightarrow> tab list \<Rightarrow> deletedTabEntry list \<Rightarrow>
   deletedTabEntry list \<times> event list"
where
  "closeOldTabs now st tabData tabs deletedTabs =
     (let sel = tabsToClose now st tabData tabs;
          (deletedTabs', evs) = saveAll now tabData sel (deletedTabs, [])
      in (deletedTabs',
          if length sel > 0 then evs @ [TabsRemove (map tabId sel)] else evs))"

text \<open>\<open>closeOldTabs\<close> of \<open>background.js\<close>, which keeps no history.\<close>

definition closeOldTabs_bg :: "int \<Rightarrow> settings \<Rightarrow> ledger \<Rightarrow> tab list \<Rightarrow> event list" where
  "closeOldTabs_bg now st tabData tabs =
     (let sel = tabsToClose now st tabData tabs
      in if length sel > 0 then [TabsRemove (map tabId sel)] else [])"

subsection \<open>\<open>autoDeleteOldTabs\<close>\<close>

definition startsWith :: "string \<Rightarrow> string \<Rightarrow> bool" where
  "startsWith s p = (take (length p) s = p)"

text \<open>The condition under which \<open>autoDeleteOldTabs\<close> skips a tab for its address.\<close>

definition specialUrl :: "string option \<Rightarrow> bool" where
  "specialUrl u =
     (case u of
        None \<Rightarrow> True
      | Some a \<Rightarrow>
          a = [] \<or> startsWith a ''chrome://'' \<or> startsWith a ''chrome-extension://'' \<or>
          startsWith a ''brave://'' \<or> startsWith a ''edge://'' \<or> a = ''about:blank'')"

text \<open>
  The loop over all tabs. A tab that passes the checks is saved, its entry, the head of
  the history, is marked \<open>autoDeleted\<close>, and its removal is requested.
\<close>

definition markAutoDeleted :: "deletedTabEntry list \<Rightarrow> deletedTabEntry list" where
  "markAutoDeleted deletedTabs =
     (case deletedTabs of [] \<Rightarrow> [] | e # es \<Rightarrow> e\<lparr>autoDeleted := True\<rparr> # es)"

fun autoDeleteOldTabs ::
  "int \<Rightarrow> settings \<Rightarrow> ledger \<Rightarrow> tab list \<Rightarrow> deletedTabEntry list \<times> event list \<Rightarrow>
   deletedTabEntry list \<times> event list"
where
  "autoDeleteOldTabs now st tabData [] acc = acc"
| "autoDeleteOldTabs now st tabData (tb # tbs) (deletedTabs, evs) =
     (case tabData (tabId tb) of
        None \<Rightarrow> autoDeleteOldTabs now st tabData tbs (deletedTabs, evs)
      | Some data \<Rightarrow>
          if active tb \<or> pinned tb then autoDeleteOldTabs now st tabData tbs (deletedTabs, evs)
          else if specialUrl (tabUrl tb) then
            autoDeleteOldTabs now st tabData tbs (deletedTabs, evs)
          else if real_of_int (now - lastActiveAt data) > autoDeleteThreshold st * 60 * 1000 then
            autoDeleteOldTabs now st tabData tbs
              (markAutoDeleted (fst (saveToDeletedHistory now tb (Some data) deletedTabs)),
               evs @ [HistorySave tb, TabsRemove [tabId tb]])
          else autoDeleteOldTabs now st tabData tbs (deletedTabs, evs))"

section \<open>Properties of the age classifier\<close>

lemma progress_bounds:
  fixes a b m :: real
  assumes "a < m" "m \<le> b"
  shows "0 < (m - a) / (b - a)" and "(m - a) / (b - a) \<le> 1"
  using assms by (simp_all add: divide_simps)

lemma progress_mono:
  fixes a b m1 m2 :: real
  assumes "a < b" "m1 \<le> m2"
  shows "(m1 - a) / (b - a) \<le> (m2 - a) / (b - a)"
  using assms by (simp add: divide_right_mono)

lemma getAgeHSL_zone1:
  "m \<le> fT \<Longrightarrow> getAgeHSL m fT sT oT = \<lparr>hue = 140, saturation = 70, lightness = 45\<rparr>"
  by (simp add: getAgeHSL_def)

lemma getAgeHSL_zone2:
  "fT < m \<Longrightarrow> m \<le> sT \<Longrightarrow> getAgeHSL m fT sT oT =
     \<lparr>hue = 140 - (m - fT) / (sT - fT) * 100,
      saturation = 70 + (m - fT) / (sT - fT) * 15,
      lightness = 45 + (m - fT) / (sT - fT) * 5\<rparr>"
  by (simp add: getAgeHSL_def Let_def)

lemma getAgeHSL_zone3:
  "fT < m \<Longrightarrow> sT < m \<Longrightarrow> m \<le> oT \<Longrightarrow> getAgeHSL m fT sT oT =
     \<lparr>hue = 40 - (m - sT) / (oT - sT) * 40,
      saturation = 85,
      lightness = 50 - (m - sT) / (oT - sT) * 5\<rparr>"
  by (simp add: getAgeHSL_def Let_def)

lemma getAgeHSL_zone4:
  "fT < m \<Longrightarrow> sT < m \<Longrightarrow> oT < m \<Longrightarrow> getAgeHSL m fT sT oT =
     \<lparr>hue = 0, saturation = 80, lightness = 40\<rparr>"
  by (simp add: getAgeHSL_def)


lemma hue_zone2:
  "fT < m \<Longrightarrow> m \<le> sT \<Longrightarrow> hue (getAgeHSL m fT sT oT) = 140 - (m - fT) / (sT - fT) * 100"
  by (simp only: getAgeHSL_zone2 hsl.simps)

lemma hue_zone3:
  "fT < m \<Longrightarrow> sT < m \<Longrightarrow> m \<le> oT \<Longrightarrow>
     hue (getAgeHSL m fT sT oT) = 40 - (m - sT) / (oT - sT) * 40"
  by (simp only: getAgeHSL_zone3 hsl.simps)

lemma hue_zone1: "m \<le> fT \<Longrightarrow> hue (getAgeHSL m fT sT oT) = 140"
  by (simp add: getAgeHSL_zone1)

lemma hue_zone4: "fT < m \<Longrightarrow> sT < m \<Longrightarrow> oT < m \<Longrightarrow> hue (getAgeHSL m fT sT oT) = 0"
  by (simp add: getAgeHSL_zone4)

lemma hue_mono:
  assumes le: "m1 \<le> m2"
  shows "hue (getAgeHSL m2 fT sT oT) \<le> hue (getAgeHSL m1 fT sT oT)"
proof -
  consider (z1) "m2 \<le> fT" | (z2) "fT < m2" "m2 \<le> sT" | (z3) "fT < m2" "sT < m2" "m2 \<le> oT"
    | (z4) "fT < m2" "sT < m2" "oT < m2"
    by linarith
  then show ?thesis
  proof cases
    case z1
    with le have "m1 \<le> fT" by linarith
    then show ?thesis unfolding hue_zone1[OF z1] hue_zone1[OF \<open>m1 \<le> fT\<close>] by simp
  next
    case z2
    note b2 = progress_bounds[OF z2]
    show ?thesis
    proof (cases "m1 \<le> fT")
      case True
      from b2 show ?thesis unfolding hue_zone2[OF z2] hue_zone1[OF True] by linarith
    next
      case False
      then have m1: "fT < m1" "m1 \<le> sT" using le z2 by linarith+
      have "fT < sT" using z2 by linarith
      from progress_mono[OF this le] show ?thesis
        unfolding hue_zone2[OF z2] hue_zone2[OF m1] by linarith
    qed
  next
    case z3
    note b3 = progress_bounds[OF z3(2,3)]
    show ?thesis
    proof (cases "m1 \<le> fT")
      case True
      from b3 show ?thesis unfolding hue_zone3[OF z3] hue_zone1[OF True] by linarith
    next
      case nf: False
      show ?thesis
      proof (cases "m1 \<le> sT")
        case True
        with nf have m1: "fT < m1" "m1 \<le> sT" by linarith+
        from progress_bounds[OF m1] b3 show ?thesis
          unfolding hue_zone3[OF z3] hue_zone2[OF m1] by linarith
      next
        case False
        with nf le z3 have m1: "fT < m1" "sT < m1" "m1 \<le> oT" by linarith+
        have "sT < oT" using z3 by linarith
        from progress_mono[OF this le] show ?thesis
          unfolding hue_zone3[OF z3] hue_zone3[OF m1] by linarith
      qed
    qed
  next
    case z4
    note h4 = hue_zone4[OF z4]
    show ?thesis
    proof (cases "m1 \<le> fT")
      case True
      show ?thesis unfolding h4 hue_zone1[OF True] by simp
    next
      case nf: False
      show ?thesis
      proof (cases "m1 \<le> sT")
        case True
        with nf have m1: "fT < m1" "m1 \<le> sT" by linarith+
        from progress_bounds[OF m1] show ?thesis
          unfolding h4 hue_zone2[OF m1] by linarith
      next
        case ns: False
        show ?thesis
        proof (cases "m1 \<le> oT")
          case True
          with nf ns have m1: "fT < m1" "sT < m1" "m1 \<le> oT" by linarith+
          from progress_bounds[OF m1(2,3)] show ?thesis
            unfolding h4 hue_zone3[OF m1] by linarith
        next
          case False
          with nf ns have "hue (getAgeHSL m1 fT sT oT) = 0"
            by (simp add: hue_zone4)
          then show ?thesis unfolding h4 by simp
        qed
      qed
    qed
  qed
qed

lemma jsRound_mono: "x \<le> y \<Longrightarrow> jsRound x \<le> jsRound y"
  by (simp add: jsRound_def floor_mono)

text \<open>
  Claim C3. With \<open>freshThreshold < staleThreshold < oldThreshold\<close>, the hue of
  \<open>getAgeColor\<close> does not increase as the minutes of inactivity grow from
  \<open>freshThreshold\<close> to \<open>oldThreshold\<close>: neither the hue computed by the
  branches nor the rounded hue written into the string.
\<close>

theorem getAgeColor_hue_nonincreasing:
  assumes "fT < sT" and "sT < oT"
    and "fT \<le> m1" and "m1 \<le> m2" and "m2 \<le> oT"
  shows "hue (getAgeHSL m2 fT sT oT) \<le> hue (getAgeHSL m1 fT sT oT) \<and>
         jsRound (hue (getAgeHSL m2 fT sT oT)) \<le> jsRound (hue (getAgeHSL m1 fT sT oT))"
  using hue_mono[OF assms(4)] jsRound_mono by blast

theorem getAgeColor_hue_nonincreasing_witness:
  "(30::real) < 120 \<and> (120::real) < 480 \<and> (30::real) \<le> 60 \<and> (60::real) \<le> 300 \<and> (300::real) \<le> 480 \<and>
   hue (getAgeHSL 300 30 120 480) \<le> hue (getAgeHSL 60 30 120 480) \<and>
   jsRound (hue (getAgeHSL 300 30 120 480)) \<le> jsRound (hue (getAgeHSL 60 30 120 480)) \<and>
   hue (getAgeHSL 60 30 120 480) = 320 / 3 \<and> hue (getAgeHSL 300 30 120 480) = 20"
  using getAgeColor_hue_nonincreasing[of 30 120 480 60 300]
  by (simp add: getAgeHSL_def)

text \<open>
  Claim C2. With the thresholds 30, 120 and 480 minutes, a tab idle for 500 minutes is in
  the fourth zone and gets hue 0, saturation 80, lightness 40; \<open>hslToHex\<close> of
  that colour is the string of the conversion formula: the channels are
  \<open>0.72\<close>, \<open>0.08\<close>, \<open>0.08\<close>, which round to 184, 20, 20 of 255 and
  print as \<open>b8\<close>, \<open>14\<close>, \<open>14\<close>.
\<close>

theorem very_old_tab_color:
  "getAgeHSL 500 30 120 480 = \<lparr>hue = 0, saturation = 80, lightness = 40\<rparr> \<and>
   getAgeColor 500 30 120 480 = ''hsl(0, 80%, 40%)'' \<and>
   hslToRgb (Some (0 / 360)) (80 / 100) (40 / 100) = (18 / 25, 2 / 25, 2 / 25) \<and>
   hslToHex (getAgeColor 500 30 120 480) = ''#b81414''"
proof -
  have a: "getAgeHSL 500 30 120 480 = \<lparr>hue = 0, saturation = 80, lightness = 40\<rparr>"
    by (simp add: getAgeHSL_def)
  have b: "getAgeColor 500 30 120 480 = ''hsl(0, 80%, 40%)''"
    by (simp add: getAgeColor_def a hslString_def intToString_def jsRound_def digitChar_def
        natToString.simps)
  have c: "hslToRgb (Some (0 / 360)) (80 / 100) (40 / 100) = (18 / 25, 2 / 25, 2 / 25)"
    by (simp add: hslToRgb_def hue2rgb_def Let_def)
  have d: "hslToHex ''hsl(0, 80%, 40%)'' = ''#b81414''"
    by code_simp
  from a b c d show ?thesis by (simp only: simp_thms)
qed

section \<open>Properties of the tab ledger\<close>

text \<open>
  Claim C6. After \<open>onRemoved\<close> of a tab its age is absent at every time. After
  \<open>onCreated\<close>, \<open>onRemoved\<close> and \<open>onCreated\<close> again for the same tab, the
  record holds the time, address and title of the second creation, and the whole ledger is
  the one that the second creation alone gives: nothing of the first is left.
\<close>

theorem ledger_removed_then_recreated:
  "ageMinutes (onRemoved tid tabData) tid now = None \<and>
   (tabId tb1 = tid \<and> tabId tb2 = tid \<longrightarrow>
      onCreated now2 tb2 (onRemoved tid (onCreated now1 tb1 tabData)) tid =
        Some \<lparr>createdAt = now2, lastActiveAt = now2, url = tabUrl tb2, title = tabTitle tb2\<rparr> \<and>
      onCreated now2 tb2 (onRemoved tid (onCreated now1 tb1 tabData)) =
        onCreated now2 tb2 tabData)"
proof -
  have gone: "onRemoved tid tabData tid = None"
    by (simp add: onRemoved_def)
  then have age: "ageMinutes (onRemoved tid tabData) tid now = None"
    by (simp add: ageMinutes_def)
  have again: "onCreated now2 tb2 (onRemoved tid (onCreated now1 tb1 tabData)) tid =
        Some \<lparr>createdAt = now2, lastActiveAt = now2, url = tabUrl tb2, title = tabTitle tb2\<rparr> \<and>
      onCreated now2 tb2 (onRemoved tid (onCreated now1 tb1 tabData)) =
        onCreated now2 tb2 tabData"
    if ids: "tabId tb1 = tid \<and> tabId tb2 = tid"
  proof -
    have "onRemoved tid (onCreated now1 tb1 tabData) = onRemoved tid tabData"
      using ids by (simp add: onRemoved_def onCreated_def)
    moreover have "onCreated now2 tb2 (onRemoved tid tabData) = onCreated now2 tb2 tabData"
      using ids by (auto simp: onRemoved_def onCreated_def)
    ultimately show ?thesis
      using ids by (simp add: onCreated_def)
  qed
  from age again show ?thesis by blast
qed

theorem ledger_removed_then_recreated_witness:
  "tabId \<lparr>tabId = 7, tabUrl = Some ''https://a.example/'', tabTitle = Some ''A'',
          favIconUrl = None, active = True, pinned = False\<rparr> = 7 \<and>
   tabId \<lparr>tabId = 7, tabUrl = Some ''https://b.example/'', tabTitle = None,
          favIconUrl = None, active = False, pinned = False\<rparr> = 7 \<and>
   onCreated 2000
     \<lparr>tabId = 7, tabUrl = Some ''https://b.example/'', tabTitle = None,
      favIconUrl = None, active = False, pinned = False\<rparr>
     (onRemoved 7
        (onCreated 1000
           \<lparr>tabId = 7, tabUrl = Some ''https://a.example/'', tabTitle = Some ''A'',
            favIconUrl = None, active = True, pinned = False\<rparr>
           Map.empty)) 7 =
     Some \<lparr>createdAt = 2000, lastActiveAt = 2000, url = Some ''https://b.example/'',
           title = None\<rparr> \<and>
   ageMinutes (onRemoved 7 (onCreated 1000
           \<lparr>tabId = 7, tabUrl = Some ''https://a.example/'', tabTitle = Some ''A'',
            favIconUrl = None, active = True, pinned = False\<rparr>
           Map.empty)) 7 5000 = None"
  using ledger_removed_then_recreated
    [where tid = 7 and now = 5000 and ?now1.0 = 1000 and ?now2.0 = 2000 and tabData = Map.empty
       and ?tb1.0 = "\<lparr>tabId = 7, tabUrl = Some ''https://a.example/'', tabTitle = Some ''A'',
          favIconUrl = None, active = True, pinned = False\<rparr>"
       and ?tb2.0 = "\<lparr>tabId = 7, tabUrl = Some ''https://b.example/'', tabTitle = None,
          favIconUrl = None, active = False, pinned = False\<rparr>"]
  by (simp add: onCreated_def onRemoved_def ageMinutes_def)

text \<open>
  Claim C9. \<open>onUpdated\<close> leaves the ledger as it is when the tab has no record; when
  it has one, only that record can change, and only in its address and title (which are
  set once the page load is complete). In every case each record keeps its
  \<open>createdAt\<close> and \<open>lastActiveAt\<close>, and no record appears or disappears.
\<close>

theorem onUpdated_frame:
  "(tabData tid = None \<longrightarrow> onUpdated tid status tb tabData = tabData) \<and>
   (\<forall>d. tabData tid = Some d \<longrightarrow>
      onUpdated tid status tb tabData tid =
        Some (if status = Some ''complete'' then d\<lparr>url := tabUrl tb, title := tabTitle tb\<rparr>
              else d)) \<and>
   (\<forall>k. k \<noteq> tid \<longrightarrow> onUpdated tid status tb tabData k = tabData k) \<and>
   (\<forall>k. map_option createdAt (onUpdated tid status tb tabData k) =
          map_option createdAt (tabData k) \<and>
        map_option lastActiveAt (onUpdated tid status tb tabData k) =
          map_option lastActiveAt (tabData k)) \<and>
   dom (onUpdated tid status tb tabData) = dom tabData"
proof (cases "tabData tid")
  case None
  then have "onUpdated tid status tb tabData = tabData"
    by (simp add: onUpdated_def)
  with None show ?thesis by simp
next
  case (Some d)
  let ?d' = "if status = Some ''complete'' then d\<lparr>url := tabUrl tb, title := tabTitle tb\<rparr> else d"
  have upd: "onUpdated tid status tb tabData = tabData(tid \<mapsto> ?d')"
    using Some by (auto simp: onUpdated_def)
  have keep: "createdAt ?d' = createdAt d" "lastActiveAt ?d' = lastActiveAt d"
    by simp_all
  show ?thesis
    unfolding upd using Some keep by (auto simp: dom_def)
qed

theorem onUpdated_frame_witness:
  "(Map.empty(7::nat \<mapsto> \<lparr>createdAt = 10, lastActiveAt = 20, url = None, title = None\<rparr>)) 8 = None \<and>
   onUpdated 8 (Some ''complete'')
     \<lparr>tabId = 8, tabUrl = Some ''https://b.example/'', tabTitle = Some ''B'',
      favIconUrl = None, active = False, pinned = False\<rparr>
     (Map.empty(7::nat \<mapsto> \<lparr>createdAt = 10, lastActiveAt = 20, url = None, title = None\<rparr>)) =
     Map.empty(7::nat \<mapsto> \<lparr>createdAt = 10, lastActiveAt = 20, url = None, title = None\<rparr>) \<and>
   (Map.empty(7::nat \<mapsto> \<lparr>createdAt = 10, lastActiveAt = 20, url = None, title = None\<rparr>)) 7 =
     Some \<lparr>createdAt = 10, lastActiveAt = 20, url = None, title = None\<rparr> \<and>
   onUpdated 7 (Some ''complete'')
     \<lparr>tabId = 7, tabUrl = Some ''https://b.example/'', tabTitle = Some ''B'',
      favIconUrl = None, active = False, pinned = False\<rparr>
     (Map.empty(7::nat \<mapsto> \<lparr>createdAt = 10, lastActiveAt = 20, url = None, title = None\<rparr>)) 7 =
     Some \<lparr>createdAt = 10, lastActiveAt = 20, url = Some ''https://b.example/'',
           title = Some ''B''\<rparr>"
proof -
  let ?m = "Map.empty(7::nat \<mapsto> \<lparr>createdAt = 10, lastActiveAt = 20, url = None, title = None\<rparr>)"
  let ?t8 = "\<lparr>tabId = 8, tabUrl = Some ''https://b.example/'', tabTitle = Some ''B'',
              favIconUrl = None, active = False, pinned = False\<rparr>"
  let ?t7 = "\<lparr>tabId = 7, tabUrl = Some ''https://b.example/'', tabTitle = Some ''B'',
              favIconUrl = None, active = False, pinned = False\<rparr>"
  have m8: "?m 8 = None" and m7: "?m 7 = Some \<lparr>createdAt = 10, lastActiveAt = 20, url = None, title = None\<rparr>"
    by simp_all
  from onUpdated_frame[where tid = 8 and status = "Some ''complete''" and tabData = ?m and tb = ?t8] m8
  have a: "onUpdated 8 (Some ''complete'') ?t8 ?m = ?m"
    by blast
  from onUpdated_frame[where tid = 7 and status = "Some ''complete''" and tabData = ?m and tb = ?t7] m7
  have "onUpdated 7 (Some ''complete'') ?t7 ?m 7 =
          Some (if Some ''complete'' = Some ''complete''
                then \<lparr>createdAt = 10, lastActiveAt = 20, url = None, title = None\<rparr>
                       \<lparr>url := tabUrl ?t7, title := tabTitle ?t7\<rparr>
                else \<lparr>createdAt = 10, lastActiveAt = 20, url = None, title = None\<rparr>)"
    by blast
  then have b: "onUpdated 7 (Some ''complete'') ?t7 ?m 7 =
      Some \<lparr>createdAt = 10, lastActiveAt = 20, url = Some ''https://b.example/'', title = Some ''B''\<rparr>"
    by simp
  from a b m7 m8 show ?thesis by (simp only: simp_thms)
qed

section \<open>Properties of the deleted-tab history\<close>

lemma saveToDeletedHistory_fst:
  "fst (saveToDeletedHistory now tb tabInfo deletedTabs) =
     historyEntry now tb tabInfo # take 49 deletedTabs"
  by (simp add: saveToDeletedHistory_def MAX_DELETED_HISTORY_def Let_def)

lemma saveToDeletedHistory_length:
  "length (fst (saveToDeletedHistory now tb tabInfo deletedTabs)) \<le> 50"
  by (simp add: saveToDeletedHistory_fst)

lemma fold_save_length:
  "length deletedTabs \<le> 50 \<Longrightarrow>
   length (fold (\<lambda>(now, tb, tabInfo) h. fst (saveToDeletedHistory now tb tabInfo h))
             calls deletedTabs) \<le> 50"
proof (induction calls arbitrary: deletedTabs)
  case Nil
  then show ?case by simp
next
  case (Cons c calls)
  obtain now tb tabInfo where c: "c = (now, tb, tabInfo)" by (cases c)
  show ?case
    unfolding c by (simp add: Cons.IH saveToDeletedHistory_length)
qed

text \<open>
  Claim C5. The history never holds more than 50 entries: every call of
  \<open>saveToDeletedHistory\<close> leaves at most 50, and so does every sequence of calls
  on a history of at most 50. The new entry is the first of the list. Saving into a
  history of 50 drops its last, oldest, entry and keeps the other 49 in their order; a
  shorter history loses nothing.
\<close>

theorem deletedTabs_bounded:
  "MAX_DELETED_HISTORY = 50 \<and>
   length (fst (saveToDeletedHistory now tb tabInfo deletedTabs)) \<le> MAX_DELETED_HISTORY \<and>
   hd (fst (saveToDeletedHistory now tb tabInfo deletedTabs)) = historyEntry now tb tabInfo \<and>
   snd (saveToDeletedHistory now tb tabInfo deletedTabs) = historyEntry now tb tabInfo \<and>
   (length deletedTabs = 50 \<longrightarrow>
      fst (saveToDeletedHistory now tb tabInfo deletedTabs) =
        historyEntry now tb tabInfo # butlast deletedTabs) \<and>
   (length deletedTabs < 50 \<longrightarrow>
      fst (saveToDeletedHistory now tb tabInfo deletedTabs) =
        historyEntry now tb tabInfo # deletedTabs) \<and>
   (length deletedTabs \<le> 50 \<longrightarrow>
      length (fold (\<lambda>(now, tb, tabInfo) h. fst (saveToDeletedHistory now tb tabInfo h))
                calls deletedTabs) \<le> 50)"
proof -
  have "length deletedTabs = 50 \<Longrightarrow> take 49 deletedTabs = butlast deletedTabs"
    by (simp add: butlast_conv_take)
  then show ?thesis
    using fold_save_length[of deletedTabs calls]
    by (simp add: saveToDeletedHistory_fst MAX_DELETED_HISTORY_def)
      (simp add: saveToDeletedHistory_def Let_def)
qed

theorem deletedTabs_bounded_witness:
  "length (map (\<lambda>i. historyEntry (int i)
              \<lparr>tabId = 7, tabUrl = Some ''https://a.example/'', tabTitle = Some ''A'',
               favIconUrl = None, active = False, pinned = False\<rparr> None) (rev [0..<50])) = 50 \<and>
   fst (saveToDeletedHistory 100
          \<lparr>tabId = 7, tabUrl = Some ''https://a.example/'', tabTitle = Some ''A'',
           favIconUrl = None, active = False, pinned = False\<rparr> None
          (map (\<lambda>i. historyEntry (int i)
              \<lparr>tabId = 7, tabUrl = Some ''https://a.example/'', tabTitle = Some ''A'',
               favIconUrl = None, active = False, pinned = False\<rparr> None) (rev [0..<50]))) =
     historyEntry 100
          \<lparr>tabId = 7, tabUrl = Some ''https://a.example/'', tabTitle = Some ''A'',
           favIconUrl = None, active = False, pinned = False\<rparr> None #
     map (\<lambda>i. historyEntry (int i)
              \<lparr>tabId = 7, tabUrl = Some ''https://a.example/'', tabTitle = Some ''A'',
               favIconUrl = None, active = False, pinned = False\<rparr> None) (rev [1..<50]) \<and>
   length ([] :: deletedTabEntry list) < 50 \<and>
   fst (saveToDeletedHistory 100
          \<lparr>tabId = 7, tabUrl = Some ''https://a.example/'', tabTitle = Some ''A'',
           favIconUrl = None, active = False, pinned = False\<rparr> None []) =
     [historyEntry 100
          \<lparr>tabId = 7, tabUrl = Some ''https://a.example/'', tabTitle = Some ''A'',
           favIconUrl = None, active = False, pinned = False\<rparr> None] \<and>
   length (fold (\<lambda>(now, tb, tabInfo) h. fst (saveToDeletedHistory now tb tabInfo h))
             [(101, \<lparr>tabId = 8, tabUrl = None, tabTitle = None,
                     favIconUrl = None, active = False, pinned = False\<rparr>, None),
              (102, \<lparr>tabId = 9, tabUrl = None, tabTitle = None,
                     favIconUrl = None, active = False, pinned = False\<rparr>, None)]
             (map (\<lambda>i. historyEntry (int i)
              \<lparr>tabId = 7, tabUrl = Some ''https://a.example/'', tabTitle = Some ''A'',
               favIconUrl = None, active = False, pinned = False\<rparr> None) (rev [0..<50]))) \<le> 50"
proof -
  let ?t = "\<lparr>tabId = 7, tabUrl = Some ''https://a.example/'', tabTitle = Some ''A'',
             favIconUrl = None, active = False, pinned = False\<rparr>"
  let ?f = "\<lambda>i. historyEntry (int i) ?t None"
  let ?h = "map ?f (rev [0..<50])"
  let ?calls = "[(101, \<lparr>tabId = 8, tabUrl = None, tabTitle = None,
                     favIconUrl = None, active = False, pinned = False\<rparr>, None),
              (102, \<lparr>tabId = 9, tabUrl = None, tabTitle = None,
                     favIconUrl = None, active = False, pinned = False\<rparr>, None)]"
  have len: "length ?h = 50" by simp
  have bl: "butlast ?h = map ?f (rev [1..<50])"
    by (simp only: map_butlast[symmetric] butlast_rev tl_upt) simp
  note inst = deletedTabs_bounded[where now = 100 and tb = ?t and tabInfo = None]
  from inst[where deletedTabs = ?h and calls = ?calls] len
  have a: "fst (saveToDeletedHistory 100 ?t None ?h) = historyEntry 100 ?t None # butlast ?h"
    by blast
  have le: "length ?h \<le> 50" by simp
  from inst[where deletedTabs = ?h and calls = ?calls] le
  have c: "length (fold (\<lambda>(now, tb, tabInfo) h. fst (saveToDeletedHistory now tb tabInfo h))
              ?calls ?h) \<le> 50"
    by blast
  have l0: "length ([] :: deletedTabEntry list) < 50" by simp
  from inst[where deletedTabs = "[]" and calls = "[]"] l0
  have b: "fst (saveToDeletedHistory 100 ?t None []) = [historyEntry 100 ?t None]"
    by blast
  from a b c len l0 show ?thesis unfolding bl by (simp only: simp_thms)
qed

section \<open>Properties of the bulk operations\<close>

lemma moveTabs_enumerate:
  "moveTabs i xs = map (\<lambda>(j, p). TabMove (tabId (fst p)) j) (enumerate i xs)"
  by (induction xs arbitrary: i) simp_all

lemma tabsWithAge_keys_le:
  assumes "\<forall>tb \<in> set tabs. \<forall>d. tabData (tabId tb) = Some d \<longrightarrow> lastActiveAt d \<le> now"
  shows "\<forall>p \<in> set (tabsWithAge now tabData tabs). snd p \<le> now"
  using assms by (auto simp: tabsWithAge_def lastActiveOr_def split: option.splits)

text \<open>
  Claim C7. \<open>sortTabsByAge\<close> sorts the tabs of the window by ascending
  \<open>lastActiveAt\<close>, oldest first, and stably: the sorted list is a rearrangement of
  the tabs with their keys, its keys ascend, and tabs with the same key keep their order.
  A tab without a record has the key \<open>now\<close>, which is the largest key when no record
  is ahead of the clock, so such a tab sorts as freshest. One move is requested per tab,
  the tab at place \<open>i\<close> of the sorted list to index \<open>i\<close>. Tabs last active at
  \<open>T - 30\<close>, \<open>T - 10\<close>, \<open>T - 50\<close> (timestamps, so positive) come out in the order
  \<open>T - 50\<close>, \<open>T - 30\<close>, \<open>T - 10\<close>.
\<close>

theorem sortTabsByAge_oldest_first:
  "sorted (map snd (sortedByAge now tabData tabs)) \<and>
   mset (sortedByAge now tabData tabs) = mset (tabsWithAge now tabData tabs) \<and>
   map fst (tabsWithAge now tabData tabs) = tabs \<and>
   (\<forall>k. filter (\<lambda>p. snd p = k) (sortedByAge now tabData tabs) =
        filter (\<lambda>p. snd p = k) (tabsWithAge now tabData tabs)) \<and>
   (\<forall>tb. tabData (tabId tb) = None \<longrightarrow> lastActiveOr (tabData (tabId tb)) now = now) \<and>
   ((\<forall>tb \<in> set tabs. \<forall>d. tabData (tabId tb) = Some d \<longrightarrow> lastActiveAt d \<le> now) \<longrightarrow>
      (\<forall>p \<in> set (sortedByAge now tabData tabs). snd p \<le> now)) \<and>
   sortTabsByAge now tabData tabs =
     map (\<lambda>(i, p). TabMove (tabId (fst p)) i) (enumerate 0 (sortedByAge now tabData tabs)) \<and>
   length (sortTabsByAge now tabData tabs) = length tabs \<and>
   (0 < T - 50 \<and>
    tabData (tabId ta) = Some ra \<and> lastActiveAt ra = T - 30 \<and>
    tabData (tabId tb) = Some rb \<and> lastActiveAt rb = T - 10 \<and>
    tabData (tabId tc) = Some rc \<and> lastActiveAt rc = T - 50 \<longrightarrow>
      map fst (sortedByAge now tabData [ta, tb, tc]) = [tc, ta, tb] \<and>
      sortTabsByAge now tabData [ta, tb, tc] =
        [TabMove (tabId tc) 0, TabMove (tabId ta) 1, TabMove (tabId tb) 2])"
proof -
  have s: "sorted (map snd (sortedByAge now tabData tabs))"
    by (simp add: sortedByAge_def)
  have p: "mset (sortedByAge now tabData tabs) = mset (tabsWithAge now tabData tabs)"
    by (simp add: sortedByAge_def)
  have f: "map fst (tabsWithAge now tabData tabs) = tabs"
    by (simp add: tabsWithAge_def comp_def)
  have st: "\<forall>k. filter (\<lambda>p. snd p = k) (sortedByAge now tabData tabs) =
        filter (\<lambda>p. snd p = k) (tabsWithAge now tabData tabs)"
    by (simp add: sortedByAge_def sort_key_stable)
  have n: "\<forall>tb. tabData (tabId tb) = None \<longrightarrow> lastActiveOr (tabData (tabId tb)) now = now"
    by (simp add: lastActiveOr_def)
  have m: "(\<forall>tb \<in> set tabs. \<forall>d. tabData (tabId tb) = Some d \<longrightarrow> lastActiveAt d \<le> now) \<longrightarrow>
      (\<forall>p \<in> set (sortedByAge now tabData tabs). snd p \<le> now)"
    using tabsWithAge_keys_le[of tabs tabData now] by (simp add: sortedByAge_def)
  have mv: "sortTabsByAge now tabData tabs =
     map (\<lambda>(i, p). TabMove (tabId (fst p)) i) (enumerate 0 (sortedByAge now tabData tabs))"
    by (simp add: sortTabsByAge_def moveTabs_enumerate)
  have len: "length (sortTabsByAge now tabData tabs) = length tabs"
    unfolding mv by (simp add: sortedByAge_def tabsWithAge_def)
  have ex: "0 < T - 50 \<and>
    tabData (tabId ta) = Some ra \<and> lastActiveAt ra = T - 30 \<and>
    tabData (tabId tb) = Some rb \<and> lastActiveAt rb = T - 10 \<and>
    tabData (tabId tc) = Some rc \<and> lastActiveAt rc = T - 50 \<longrightarrow>
      map fst (sortedByAge now tabData [ta, tb, tc]) = [tc, ta, tb] \<and>
      sortTabsByAge now tabData [ta, tb, tc] =
        [TabMove (tabId tc) 0, TabMove (tabId ta) 1, TabMove (tabId tb) 2]"
    by (simp add: sortTabsByAge_def sortedByAge_def tabsWithAge_def lastActiveOr_def)
  from s p f st n m mv len ex show ?thesis by blast
qed

theorem sortTabsByAge_oldest_first_witness:
  "(0::int) < 1000 - 50 \<and>
   (Map.empty(1::nat \<mapsto> \<lparr>createdAt = 100, lastActiveAt = 970, url = None, title = None\<rparr>, 2 \<mapsto> \<lparr>createdAt = 100, lastActiveAt = 990, url = None, title = None\<rparr>, 3 \<mapsto> \<lparr>createdAt = 100, lastActiveAt = 950, url = None, title = None\<rparr>)) 1 = Some \<lparr>createdAt = 100, lastActiveAt = 970, url = None, title = None\<rparr> \<and>
   (Map.empty(1::nat \<mapsto> \<lparr>createdAt = 100, lastActiveAt = 970, url = None, title = None\<rparr>, 2 \<mapsto> \<lparr>createdAt = 100, lastActiveAt = 990, url = None, title = None\<rparr>, 3 \<mapsto> \<lparr>createdAt = 100, lastActiveAt = 950, url = None, title = None\<rparr>)) 2 = Some \<lparr>createdAt = 100, lastActiveAt = 990, url = None, title = None\<rparr> \<and>
   (Map.empty(1::nat \<mapsto> \<lparr>createdAt = 100, lastActiveAt = 970, url = None, title = None\<rparr>, 2 \<mapsto> \<lparr>createdAt = 100, lastActiveAt = 990, url = None, title = None\<rparr>, 3 \<mapsto> \<lparr>createdAt = 100, lastActiveAt = 950, url = None, title = None\<rparr>)) 3 = Some \<lparr>createdAt = 100, lastActiveAt = 950, url = None, title = None\<rparr> \<and>
   (Map.empty(1::nat \<mapsto> \<lparr>createdAt = 100, lastActiveAt = 970, url = None, title = None\<rparr>, 2 \<mapsto> \<lparr>createdAt = 100, lastActiveAt = 990, url = None, title = None\<rparr>, 3 \<mapsto> \<lparr>createdAt = 100, lastActiveAt = 950, url = None, title = None\<rparr>)) 4 = None \<and>
   sortTabsByAge 2000
     (Map.empty(1::nat \<mapsto> \<lparr>createdAt = 100, lastActiveAt = 970, url = None, title = None\<rparr>, 2 \<mapsto> \<lparr>createdAt = 100, lastActiveAt = 990, url = None, title = None\<rparr>, 3 \<mapsto> \<lparr>createdAt = 100, lastActiveAt = 950, url = None, title = None\<rparr>))
     [\<lparr>tabId = 1, tabUrl = None, tabTitle = None, favIconUrl = None, active = False, pinned = False\<rparr>,
      \<lparr>tabId = 2, tabUrl = None, tabTitle = None, favIconUrl = None, active = False, pinned = False\<rparr>,
      \<lparr>tabId = 3, tabUrl = None, tabTitle = None, favIconUrl = None, active = False, pinned = False\<rparr>] =
     [TabMove 3 0, TabMove 1 1, TabMove 2 2] \<and>
   lastActiveOr ((Map.empty(1::nat \<mapsto> \<lparr>createdAt = 100, lastActiveAt = 970, url = None, title = None\<rparr>, 2 \<mapsto> \<lparr>createdAt = 100, lastActiveAt = 990, url = None, title = None\<rparr>, 3 \<mapsto> \<lparr>createdAt = 100, lastActiveAt = 950, url = None, title = None\<rparr>)) 4) 2000 = 2000 \<and>
   list_all (\<lambda>p. snd p \<le> 2000)
     (sortedByAge 2000
        (Map.empty(1::nat \<mapsto> \<lparr>createdAt = 100, lastActiveAt = 970, url = None, title = None\<rparr>, 2 \<mapsto> \<lparr>createdAt = 100, lastActiveAt = 990, url = None, title = None\<rparr>, 3 \<mapsto> \<lparr>createdAt = 100, lastActiveAt = 950, url = None, title = None\<rparr>))
        [\<lparr>tabId = 4, tabUrl = None, tabTitle = None, favIconUrl = None, active = False, pinned = False\<rparr>,
      \<lparr>tabId = 1, tabUrl = None, tabTitle = None, favIconUrl = None, active = False, pinned = False\<rparr>,
      \<lparr>tabId = 2, tabUrl = None, tabTitle = None, favIconUrl = None, active = False, pinned = False\<rparr>,
      \<lparr>tabId = 3, tabUrl = None, tabTitle = None, favIconUrl = None, active = False, pinned = False\<rparr>]) \<and>
   map (tabId \<circ> fst)
     (sortedByAge 2000
        (Map.empty(1::nat \<mapsto> \<lparr>createdAt = 100, lastActiveAt = 970, url = None, title = None\<rparr>, 2 \<mapsto> \<lparr>createdAt = 100, lastActiveAt = 990, url = None, title = None\<rparr>, 3 \<mapsto> \<lparr>createdAt = 100, lastActiveAt = 950, url = None, title = None\<rparr>))
        [\<lparr>tabId = 4, tabUrl = None, tabTitle = None, favIconUrl = None, active = False, pinned = False\<rparr>,
      \<lparr>tabId = 1, tabUrl = None, tabTitle = None, favIconUrl = None, active = False, pinned = False\<rparr>,
      \<lparr>tabId = 2, tabUrl = None, tabTitle = None, favIconUrl = None, active = False, pinned = False\<rparr>,
      \<lparr>tabId = 3, tabUrl = None, tabTitle = None, favIconUrl = None, active = False, pinned = False\<rparr>]) = [3, 1, 2, 4]"
proof -
  let ?m = "(Map.empty(1::nat \<mapsto> \<lparr>createdAt = 100, lastActiveAt = 970, url = None, title = None\<rparr>, 2 \<mapsto> \<lparr>createdAt = 100, lastActiveAt = 990, url = None, title = None\<rparr>, 3 \<mapsto> \<lparr>createdAt = 100, lastActiveAt = 950, url = None, title = None\<rparr>))"
  let ?t1 = "\<lparr>tabId = 1, tabUrl = None, tabTitle = None, favIconUrl = None, active = False, pinned = False\<rparr>"
  let ?t2 = "\<lparr>tabId = 2, tabUrl = None, tabTitle = None, favIconUrl = None, active = False, pinned = False\<rparr>"
  let ?t3 = "\<lparr>tabId = 3, tabUrl = None, tabTitle = None, favIconUrl = None, active = False, pinned = False\<rparr>"
  let ?t4 = "\<lparr>tabId = 4, tabUrl = None, tabTitle = None, favIconUrl = None, active = False, pinned = False\<rparr>"
  have m1: "?m 1 = Some \<lparr>createdAt = 100, lastActiveAt = 970, url = None, title = None\<rparr>" and m2: "?m 2 = Some \<lparr>createdAt = 100, lastActiveAt = 990, url = None, title = None\<rparr>"
    and m3: "?m 3 = Some \<lparr>createdAt = 100, lastActiveAt = 950, url = None, title = None\<rparr>" and m4: "?m 4 = None"
    by simp_all
  have h: "(0::int) < 1000 - 50 \<and>
      ?m (tabId ?t1) = Some \<lparr>createdAt = 100, lastActiveAt = 970, url = None, title = None\<rparr> \<and>
      lastActiveAt \<lparr>createdAt = 100, lastActiveAt = 970, url = None, title = None\<rparr> = 1000 - 30 \<and>
      ?m (tabId ?t2) = Some \<lparr>createdAt = 100, lastActiveAt = 990, url = None, title = None\<rparr> \<and>
      lastActiveAt \<lparr>createdAt = 100, lastActiveAt = 990, url = None, title = None\<rparr> = 1000 - 10 \<and>
      ?m (tabId ?t3) = Some \<lparr>createdAt = 100, lastActiveAt = 950, url = None, title = None\<rparr> \<and>
      lastActiveAt \<lparr>createdAt = 100, lastActiveAt = 950, url = None, title = None\<rparr> = 1000 - 50"
    by simp
  from sortTabsByAge_oldest_first
      [where T = 1000 and now = 2000 and tabData = ?m and ta = ?t1 and tb = ?t2 and tc = ?t3
         and ra = "\<lparr>createdAt = 100, lastActiveAt = 970, url = None, title = None\<rparr>" and rb = "\<lparr>createdAt = 100, lastActiveAt = 990, url = None, title = None\<rparr>" and rc = "\<lparr>createdAt = 100, lastActiveAt = 950, url = None, title = None\<rparr>" and tabs = "[]"] h
  have "sortTabsByAge 2000 ?m [?t1, ?t2, ?t3] =
      [TabMove (tabId ?t3) 0, TabMove (tabId ?t1) 1, TabMove (tabId ?t2) 2]"
    by blast
  then have ex: "sortTabsByAge 2000 ?m [?t1, ?t2, ?t3] = [TabMove 3 0, TabMove 1 1, TabMove 2 2]"
    by simp
  have hyp: "\<forall>tb \<in> set [?t4, ?t1, ?t2, ?t3]. \<forall>d. ?m (tabId tb) = Some d \<longrightarrow> lastActiveAt d \<le> 2000"
    by simp
  from sortTabsByAge_oldest_first[where now = 2000 and tabData = ?m and tabs = "[?t4, ?t1, ?t2, ?t3]"
      and T = 0 and ta = ?t4 and tb = ?t4 and tc = ?t4 and ra = "\<lparr>createdAt = 100, lastActiveAt = 970, url = None, title = None\<rparr>"
      and rb = "\<lparr>createdAt = 100, lastActiveAt = 970, url = None, title = None\<rparr>"
      and rc = "\<lparr>createdAt = 100, lastActiveAt = 970, url = None, title = None\<rparr>"] hyp
  have "\<forall>p \<in> set (sortedByAge 2000 ?m [?t4, ?t1, ?t2, ?t3]). snd p \<le> 2000"
    by blast
  then have mx: "list_all (\<lambda>p. snd p \<le> 2000) (sortedByAge 2000 ?m [?t4, ?t1, ?t2, ?t3])"
    by (simp only: list_all_iff)
  have "tabId ?t4 = 4" by simp
  with sortTabsByAge_oldest_first[where now = 2000 and tabData = ?m and tabs = "[]"
      and T = 0 and ta = ?t4 and tb = ?t4 and tc = ?t4 and ra = "\<lparr>createdAt = 100, lastActiveAt = 970, url = None, title = None\<rparr>"
      and rb = "\<lparr>createdAt = 100, lastActiveAt = 970, url = None, title = None\<rparr>"
      and rc = "\<lparr>createdAt = 100, lastActiveAt = 970, url = None, title = None\<rparr>"] m4
  have sent: "lastActiveOr (?m 4) 2000 = 2000"
    by metis
  have ord: "map (tabId \<circ> fst) (sortedByAge 2000 ?m [?t4, ?t1, ?t2, ?t3]) = [3, 1, 2, 4]"
    by (simp add: sortedByAge_def tabsWithAge_def lastActiveOr_def)
  from m1 m2 m3 m4 ex mx sent ord show ?thesis by simp
qed

lemma saveAll_events:
  "snd (saveAll now tabData sel (deletedTabs, evs)) = evs @ map HistorySave sel"
  by (induction sel arbitrary: deletedTabs evs) simp_all

lemma take_append_Cons_take:
  "take (Suc n) (as @ x # take n ds) = take (Suc n) (as @ x # ds)"
  by (induction as arbitrary: n) (auto simp: take_Cons split: nat.splits)

lemma saveAll_history:
  "sel \<noteq> [] \<Longrightarrow>
   fst (saveAll now tabData sel (deletedTabs, evs)) =
     take 50 (rev (map (\<lambda>tb. historyEntry now tb (tabData (tabId tb))) sel) @ deletedTabs)"
proof (induction sel arbitrary: deletedTabs evs)
  case Nil
  then show ?case by simp
next
  case (Cons tb tbs)
  let ?e = "historyEntry now tb (tabData (tabId tb))"
  show ?case
  proof (cases "tbs = []")
    case True
    then show ?thesis by (simp add: saveToDeletedHistory_fst)
  next
    case False
    from Cons.IH[OF False, of "?e # take 49 deletedTabs" "evs @ [HistorySave tb]"]
    show ?thesis
      using take_append_Cons_take[of 49 "rev (map (\<lambda>tb. historyEntry now tb (tabData (tabId tb))) tbs)" ?e deletedTabs]
      by (simp add: saveToDeletedHistory_fst)
  qed
qed

lemma tabsToClose_ageMinutes:
  "tabsToClose now st tabData tabs =
     filter (\<lambda>tb. \<not> active tb \<and>
                  (case ageMinutes tabData (tabId tb) now of
                     None \<Rightarrow> False
                   | Some age \<Rightarrow> age > oldThreshold st)) tabs"
  unfolding tabsToClose_def Let_def ageMinutes_def
  by (rule filter_cong) (auto split: option.splits simp: field_simps)

lemma autoDeleteOldTabs_events:
  "snd (autoDeleteOldTabs now st tabData tabs (deletedTabs, evs)) =
     evs @ concat (map (\<lambda>tb. [HistorySave tb, TabsRemove [tabId tb]])
             (filter (\<lambda>tb. case tabData (tabId tb) of
                       None \<Rightarrow> False
                     | Some data \<Rightarrow>
                         \<not> active tb \<and> \<not> pinned tb \<and> \<not> specialUrl (tabUrl tb) \<and>
                         real_of_int (now - lastActiveAt data) > autoDeleteThreshold st * 60 * 1000)
                tabs))"
  by (induction tabs arbitrary: deletedTabs evs)
     (auto simp: saveToDeletedHistory_fst markAutoDeleted_def split: option.splits)

text \<open>
  Claim C4, as the code has it. \<open>closeOldTabs\<close> selects, in their order, exactly the
  tabs of the window that have a record, are not the active tab and whose age in minutes
  exceeds \<open>oldThreshold\<close>; a pinned tab or an internal page is selected like any
  other. In the variant with a history every selected tab is handed to
  \<open>saveToDeletedHistory\<close>, in order, and then one removal of all of them is
  requested; the history gains their entries, newest first, cut at 50. The variant of
  \<open>background.js\<close> requests the same removal and saves nothing. Pinned tabs and
  internal pages are skipped by \<open>autoDeleteOldTabs\<close>, which compares with
  \<open>autoDeleteThreshold\<close> and saves each tab before its removal.
\<close>

theorem closeOldTabs_selection_and_archive:
  "tabsToClose now st tabData tabs =
     filter (\<lambda>tb. \<not> active tb \<and>
                  (case ageMinutes tabData (tabId tb) now of
                     None \<Rightarrow> False
                   | Some age \<Rightarrow> age > oldThreshold st)) tabs \<and>
   snd (closeOldTabs now st tabData tabs deletedTabs) =
     map HistorySave (tabsToClose now st tabData tabs) @
     (if tabsToClose now st tabData tabs = [] then []
      else [TabsRemove (map tabId (tabsToClose now st tabData tabs))]) \<and>
   fst (closeOldTabs now st tabData tabs deletedTabs) =
     (if tabsToClose now st tabData tabs = [] then deletedTabs
      else take 50 (rev (map (\<lambda>tb. historyEntry now tb (tabData (tabId tb)))
                          (tabsToClose now st tabData tabs)) @ deletedTabs)) \<and>
   closeOldTabs_bg now st tabData tabs =
     (if tabsToClose now st tabData tabs = [] then []
      else [TabsRemove (map tabId (tabsToClose now st tabData tabs))]) \<and>
   snd (autoDeleteOldTabs now st tabData tabs (deletedTabs, [])) =
     concat (map (\<lambda>tb. [HistorySave tb, TabsRemove [tabId tb]])
       (filter (\<lambda>tb. case tabData (tabId tb) of
                       None \<Rightarrow> False
                     | Some data \<Rightarrow>
                         \<not> active tb \<and> \<not> pinned tb \<and> \<not> specialUrl (tabUrl tb) \<and>
                         real_of_int (now - lastActiveAt data) > autoDeleteThreshold st * 60 * 1000)
          tabs))"
proof -
  let ?sel = "tabsToClose now st tabData tabs"
  have ev: "snd (closeOldTabs now st tabData tabs deletedTabs) =
     map HistorySave ?sel @ (if ?sel = [] then [] else [TabsRemove (map tabId ?sel)])"
    using saveAll_events[of now tabData ?sel deletedTabs "[]"]
    by (simp add: closeOldTabs_def Let_def split_beta)
  have hi: "fst (closeOldTabs now st tabData tabs deletedTabs) =
     (if ?sel = [] then deletedTabs
      else take 50 (rev (map (\<lambda>tb. historyEntry now tb (tabData (tabId tb))) ?sel) @ deletedTabs))"
    using saveAll_history[of ?sel now tabData deletedTabs "[]"]
    by (simp add: closeOldTabs_def Let_def split_beta)
  have bg: "closeOldTabs_bg now st tabData tabs =
     (if ?sel = [] then [] else [TabsRemove (map tabId ?sel)])"
    by (simp add: closeOldTabs_bg_def Let_def)
  show ?thesis
    using tabsToClose_ageMinutes[of now st tabData tabs] ev hi bg
      autoDeleteOldTabs_events[of now st tabData tabs deletedTabs "[]"]
    by (simp only: append_Nil simp_thms)
qed

text \<open>
  A pinned tab showing an internal page, idle for four minutes with
  \<open>oldThreshold = 3\<close>, is selected, saved and removed by \<open>closeOldTabs\<close>; the
  active tab beside it is left.
\<close>

theorem closeOldTabs_selects_pinned_internal:
  "pinned \<lparr>tabId = 5, tabUrl = Some ''chrome://settings/'', tabTitle = Some ''Settings'',
           favIconUrl = None, active = False, pinned = True\<rparr> \<and>
   specialUrl (tabUrl \<lparr>tabId = 5, tabUrl = Some ''chrome://settings/'',
           tabTitle = Some ''Settings'', favIconUrl = None, active = False, pinned = True\<rparr>) \<and>
   snd (closeOldTabs 241000
     \<lparr>freshThreshold = 1, staleThreshold = 2, oldThreshold = 3, enabled = True,
      indicatorStyle = ''dot'', indicatorSize = 12, autoDeleteEnabled = False,
      autoDeleteThreshold = 60\<rparr>
     (Map.empty(5 \<mapsto> \<lparr>createdAt = 1000, lastActiveAt = 1000, url = None, title = None\<rparr>,
                6 \<mapsto> \<lparr>createdAt = 1000, lastActiveAt = 1000, url = None, title = None\<rparr>))
     [\<lparr>tabId = 5, tabUrl = Some ''chrome://settings/'', tabTitle = Some ''Settings'',
       favIconUrl = None, active = False, pinned = True\<rparr>,
      \<lparr>tabId = 6, tabUrl = Some ''https://a.example/'', tabTitle = Some ''A'',
       favIconUrl = None, active = True, pinned = False\<rparr>]
     []) =
   [HistorySave \<lparr>tabId = 5, tabUrl = Some ''chrome://settings/'', tabTitle = Some ''Settings'',
                 favIconUrl = None, active = False, pinned = True\<rparr>,
    TabsRemove [5]]"
  by (simp add: closeOldTabs_def tabsToClose_def Let_def specialUrl_def startsWith_def)

section \<open>Properties of the colour conversion\<close>

subsection \<open>Pieces of the patterns\<close>

lemma lit_Nil: "lit [] s = Some s"
  by (simp add: lit_def)

lemma lit_Cons_Nil: "lit (p # ps) [] = None"
  by (simp add: lit_def)

lemma lit_Cons_Cons: "lit (p # ps) (c # cs) = (if p = c then lit ps cs else None)"
  by (auto simp: lit_def)

lemmas lit_simps = lit_Nil lit_Cons_Nil lit_Cons_Cons

lemma many1_stop:
  assumes "list_all P ds" and "\<not> P c"
  shows "many1 P (ds @ c # r) = (if ds = [] then None else Some (ds, c # r))"
proof -
  from assms have "takeWhile P (ds @ c # r) = ds" "dropWhile P (ds @ c # r) = c # r"
    by (simp_all add: list_all_iff takeWhile_append2 dropWhile_append2)
  then show ?thesis by (simp add: many1_def)
qed

lemma skipSpace_stop:
  assumes "list_all isDigit ds" and "\<not> isSpace c"
  shows "skipSpace (ds @ c # r) = ds @ c # r"
proof (cases ds)
  case Nil
  with assms show ?thesis by (simp add: skipSpace_def)
next
  case (Cons d ds')
  with assms have "isDigit d" by simp
  then have "\<not> isSpace d" by (auto simp: isDigit_def isSpace_def)
  with Cons show ?thesis by (simp add: skipSpace_def)
qed

lemma skipSpace_space: "skipSpace (CHR '' '' # r) = skipSpace r"
  by (simp add: skipSpace_def isSpace_def)

lemma first_non_digit:
  assumes "set X \<subseteq> set ''0123456789.e+-''" and "\<not> list_all isDigit X"
  shows "\<exists>ds c r. X = ds @ c # r \<and> list_all isDigit ds \<and> c \<in> set ''.e+-''"
proof -
  from assms(2) have "\<exists>x \<in> set X. \<not> isDigit x" by (simp add: list_all_iff)
  then obtain ds c r where X: "X = ds @ c # r" and c: "\<not> isDigit c"
    and ds: "\<forall>y \<in> set ds. \<not> \<not> isDigit y"
    using split_list_first_prop[of X "\<lambda>x. \<not> isDigit x"] by blast
  from X assms(1) have "c \<in> set ''0123456789.e+-''" by auto
  with c have "c \<in> set ''.e+-''" by (auto simp: isDigit_def)
  with X ds show ?thesis by (auto simp: list_all_iff)
qed

lemma firstMatch_no_h:
  "CHR ''h'' \<notin> set s \<Longrightarrow> firstMatch hslMatchAt_bg s = None"
  by (induction s) (auto simp: hslMatchAt_bg_def lit_simps)

lemma sign_chars:
  assumes "c \<in> set ''.e+-''"
  shows "\<not> isDigit c" "\<not> isSpace c" "c \<noteq> CHR '',''" "c \<noteq> CHR ''%''"
  using assms by (auto simp: isDigit_def isSpace_def)

lemma hslMatchAt_bg_first:
  assumes A: "set A \<subseteq> set ''0123456789.e+-''" and nA: "\<not> list_all isDigit A"
  shows "hslMatchAt_bg (hslString A B C) = None"
proof -
  from first_non_digit[OF A nA] obtain ds c r
    where X: "A = ds @ c # r" and ds: "list_all isDigit ds" and c: "c \<in> set ''.e+-''"
    by blast
  note m = many1_stop[OF ds sign_chars(1)[OF c]]
  show ?thesis
    using sign_chars(3)[OF c]
    by (simp add: hslMatchAt_bg_def hslString_def X lit_simps m)
qed

lemma hslMatchAt_bg_second:
  assumes A: "list_all isDigit A"
    and B: "set B \<subseteq> set ''0123456789.e+-''" and nB: "\<not> list_all isDigit B"
  shows "hslMatchAt_bg (hslString A B C) = None"
proof -
  from first_non_digit[OF B nB] obtain ds c r
    where X: "B = ds @ c # r" and ds: "list_all isDigit ds" and c: "c \<in> set ''.e+-''"
    by blast
  have comma: "\<not> isDigit CHR '',''" by (simp add: isDigit_def)
  note mA = many1_stop[OF A comma]
  note mB = many1_stop[OF ds sign_chars(1)[OF c]]
  note sB = skipSpace_stop[OF ds sign_chars(2)[OF c]]
  show ?thesis
    using sign_chars(4)[OF c]
    by (simp add: hslMatchAt_bg_def hslString_def X lit_simps mA mB sB skipSpace_space)
qed

lemma hslMatchAt_bg_third:
  assumes A: "list_all isDigit A" and B: "list_all isDigit B"
    and C: "set C \<subseteq> set ''0123456789.e+-''" and nC: "\<not> list_all isDigit C"
  shows "hslMatchAt_bg (hslString A B C) = None"
proof -
  from first_non_digit[OF C nC] obtain ds c r
    where X: "C = ds @ c # r" and ds: "list_all isDigit ds" and c: "c \<in> set ''.e+-''"
    by blast
  have comma: "\<not> isDigit CHR '',''" and pct: "\<not> isDigit CHR ''%''" and npct: "\<not> isSpace CHR ''%''"
    by (simp_all add: isDigit_def isSpace_def)
  note mA = many1_stop[OF A comma]
  note mB = many1_stop[OF B pct]
  note sB = skipSpace_stop[OF B npct]
  note mC = many1_stop[OF ds sign_chars(1)[OF c]]
  note sC = skipSpace_stop[OF ds sign_chars(2)[OF c]]
  show ?thesis
    using sign_chars(4)[OF c]
    by (simp add: hslMatchAt_bg_def hslString_def X lit_simps mA mB sB mC sC skipSpace_space)
qed

lemma hslMatch_bg_not_digits:
  assumes A: "set A \<subseteq> set ''0123456789.e+-''"
    and B: "set B \<subseteq> set ''0123456789.e+-''"
    and C: "set C \<subseteq> set ''0123456789.e+-''"
    and n: "\<not> list_all isDigit A \<or> \<not> list_all isDigit B \<or> \<not> list_all isDigit C"
  shows "hslMatch_bg (hslString A B C) = None"
proof -
  have at: "hslMatchAt_bg (hslString A B C) = None"
    using n hslMatchAt_bg_first[OF A] hslMatchAt_bg_second[OF _ B] hslMatchAt_bg_third[OF _ _ C]
    by blast
  have "CHR ''h'' \<notin> set (''sl('' @ A @ '', '' @ B @ ''%, '' @ C @ ''%)'')"
    using A B C by auto
  then have tl: "firstMatch hslMatchAt_bg (''sl('' @ A @ '', '' @ B @ ''%, '' @ C @ ''%)'') = None"
    by (rule firstMatch_no_h)
  have "hslString A B C = CHR ''h'' # (''sl('' @ A @ '', '' @ B @ ''%, '' @ C @ ''%)'')"
    by (simp add: hslString_def)
  then show ?thesis
    using at tl by (simp add: hslMatch_bg_def)
qed

subsection \<open>The sample number conversion\<close>

lemma digitChar_digit:
  assumes "k < 10"
  shows "isDigit (digitChar k)"
proof -
  from assms consider "k = 0" | "k = 1" | "k = 2" | "k = 3" | "k = 4"
    | "k = 5" | "k = 6" | "k = 7" | "k = 8" | "k = 9"
    by atomize_elim arith
  then show ?thesis
    by cases (simp_all add: digitChar_def isDigit_def)
qed

lemma natToString_digits: "list_all isDigit (natToString 10 n)"
proof (induction "10::nat" n rule: natToString.induct)
  case (1 n)
  show ?case
  proof (cases "n < 10")
    case True
    then show ?thesis by (subst natToString.simps) (simp add: digitChar_digit)
  next
    case False
    with 1 have "list_all isDigit (natToString 10 (n div 10))" by simp
    moreover have "isDigit (digitChar (n mod 10))" by (simp add: digitChar_digit)
    ultimately show ?thesis using False by (subst natToString.simps) simp
  qed
qed

lemma natToString_nonempty: "natToString b n \<noteq> []"
  by (subst natToString.simps) simp

lemma fracDigits_digits:
  "0 \<le> x \<Longrightarrow> x < 1 \<Longrightarrow> list_all isDigit (fracDigits k x)"
proof (induction k arbitrary: x)
  case 0
  then show ?case by simp
next
  case (Suc k)
  let ?d = "\<lfloor>10 * x\<rfloor>"
  from Suc.prems have d0: "0 \<le> ?d" and d9: "?d < 10"
    by (simp_all add: floor_less_iff)
  then have "nat ?d < 10" by linarith
  then have "isDigit (digitChar (nat ?d))" by (rule digitChar_digit)
  moreover have "0 \<le> 10 * x - of_int ?d" "10 * x - of_int ?d < 1"
    by linarith+
  then have "list_all isDigit (fracDigits k (10 * x - of_int ?d))" by (rule Suc.IH)
  ultimately show ?case by simp
qed

lemma isDigit_alphabet: "isDigit c \<Longrightarrow> c \<in> set ''0123456789.e+-''"
  by (auto simp: isDigit_def)

lemma decimalString_format: "jsNumberFormat decimalString"
  unfolding jsNumberFormat_def
proof (intro allI conjI impI)
  fix x :: real
  let ?a = "\<bar>x\<bar>"
  have fr: "0 \<le> ?a - of_int \<lfloor>?a\<rfloor>" "?a - of_int \<lfloor>?a\<rfloor> < 1" by linarith+
  have w: "set (natToString 10 (nat \<lfloor>?a\<rfloor>)) \<subseteq> set ''0123456789.e+-''"
    using natToString_digits[of "nat \<lfloor>?a\<rfloor>"] isDigit_alphabet
    by (auto simp only: list_all_iff)
  have f: "set (fracDigits 16 (?a - of_int \<lfloor>?a\<rfloor>)) \<subseteq> set ''0123456789.e+-''"
    using fracDigits_digits[OF fr, of 16] isDigit_alphabet
    by (auto simp only: list_all_iff)
  show "set (decimalString x) \<subseteq> set ''0123456789.e+-''"
    using w f by (auto simp: decimalString_def Let_def)
  show "\<not> list_all isDigit (decimalString x)" if "x \<notin> \<int>"
  proof -
    have "?a \<noteq> of_int \<lfloor>?a\<rfloor>"
    proof
      assume "?a = of_int \<lfloor>?a\<rfloor>"
      then have "?a \<in> \<int>" by (metis Ints_of_int)
      then have "x \<in> \<int>" by (cases "x < 0") (auto simp: abs_if dest: Ints_minus)
      with that show False by simp
    qed
    then show ?thesis
      by (auto simp: decimalString_def Let_def isDigit_def)
  qed
qed

text \<open>
  Claim C10. In \<open>background.js\<close> the colour string holds the components unrounded
  and the pattern of \<open>hslToHex\<close> takes digits only. So whenever the hue, the
  saturation or the lightness computed for a tab is not an integer (which happens only
  in the second and third zone), \<open>hslToHex\<close> of the string of \<open>getAgeColor\<close> is
  the fallback colour \<open>#22c55e\<close>, whatever the computed colour is.
\<close>

theorem background_unrounded_color_falls_back:
  assumes fmt: "jsNumberFormat numToString"
    and ni: "hue (getAgeHSL m (freshThreshold st) (staleThreshold st) (oldThreshold st)) \<notin> \<int> \<or>
             saturation (getAgeHSL m (freshThreshold st) (staleThreshold st) (oldThreshold st)) \<notin> \<int> \<or>
             lightness (getAgeHSL m (freshThreshold st) (staleThreshold st) (oldThreshold st)) \<notin> \<int>"
  shows "hslToHex_bg (getAgeColor_bg numToString st m) = ''#22c55e'' \<and>
         freshThreshold st < m \<and> (m \<le> staleThreshold st \<or> m \<le> oldThreshold st)"
proof -
  let ?c = "getAgeHSL m (freshThreshold st) (staleThreshold st) (oldThreshold st)"
  from fmt have alph: "\<And>x. set (numToString x) \<subseteq> set ''0123456789.e+-''"
    and nd: "\<And>x. x \<notin> \<int> \<Longrightarrow> \<not> list_all isDigit (numToString x)"
    unfolding jsNumberFormat_def by blast+
  from ni nd have "\<not> list_all isDigit (numToString (hue ?c)) \<or>
      \<not> list_all isDigit (numToString (saturation ?c)) \<or>
      \<not> list_all isDigit (numToString (lightness ?c))"
    by blast
  from hslMatch_bg_not_digits[OF alph alph alph this]
  have "hslMatch_bg (getAgeColor_bg numToString st m) = None"
    by (simp add: getAgeColor_bg_def Let_def)
  then have fb: "hslToHex_bg (getAgeColor_bg numToString st m) = ''#22c55e''"
    by (simp add: hslToHex_bg_def)
  have z1: "freshThreshold st < m"
  proof (rule ccontr)
    assume "\<not> freshThreshold st < m"
    then have "?c = \<lparr>hue = 140, saturation = 70, lightness = 45\<rparr>"
      by (simp add: getAgeHSL_zone1)
    with ni show False by simp
  qed
  have z4: "m \<le> staleThreshold st \<or> m \<le> oldThreshold st"
  proof (rule ccontr)
    assume "\<not> (m \<le> staleThreshold st \<or> m \<le> oldThreshold st)"
    with z1 have "?c = \<lparr>hue = 0, saturation = 80, lightness = 40\<rparr>"
      by (simp add: getAgeHSL_zone4)
    with ni show False by simp
  qed
  from fb z1 z4 show ?thesis by blast
qed

theorem background_unrounded_color_falls_back_witness:
  "jsNumberFormat decimalString \<and>
   hue (getAgeHSL 40 30 120 480) = 1160 / 9 \<and>
   (1160 / 9 :: real) \<notin> \<int> \<and>
   getAgeColor_bg decimalString
     \<lparr>freshThreshold = 30, staleThreshold = 120, oldThreshold = 480, enabled = True,
      indicatorStyle = ''dot'', indicatorSize = 8, autoDeleteEnabled = False,
      autoDeleteThreshold = 60\<rparr> 40 =
     ''hsl(128.8888888888888888, 71.6666666666666666%, 45.5555555555555555%)'' \<and>
   hslToHex_bg (getAgeColor_bg decimalString
     \<lparr>freshThreshold = 30, staleThreshold = 120, oldThreshold = 480, enabled = True,
      indicatorStyle = ''dot'', indicatorSize = 8, autoDeleteEnabled = False,
      autoDeleteThreshold = 60\<rparr> 40) = ''#22c55e'' \<and>
   hslToHex (getAgeColor 40 30 120 480) = ''#21ca3a''"
proof -
  let ?st = "\<lparr>freshThreshold = 30, staleThreshold = 120, oldThreshold = 480, enabled = True,
      indicatorStyle = ''dot'', indicatorSize = 8, autoDeleteEnabled = False,
      autoDeleteThreshold = 60\<rparr>"
  have h: "hue (getAgeHSL 40 30 120 480) = 1160 / 9"
    by (simp add: getAgeHSL_def)
  have n: "(1160 / 9 :: real) \<notin> \<int>"
  proof
    assume "(1160 / 9 :: real) \<in> \<int>"
    then have "of_int \<lfloor>1160 / 9 :: real\<rfloor> = (1160 / 9 :: real)" by (rule of_int_floor)
    then show False by simp
  qed
  have h': "hue (getAgeHSL 40 (freshThreshold ?st) (staleThreshold ?st) (oldThreshold ?st)) = 1160 / 9"
    by (simp add: getAgeHSL_def)
  have "hue (getAgeHSL 40 (freshThreshold ?st) (staleThreshold ?st) (oldThreshold ?st)) \<notin> \<int>"
    unfolding h' by (rule n)
  with background_unrounded_color_falls_back[OF decimalString_format, of 40 ?st]
  have fb: "hslToHex_bg (getAgeColor_bg decimalString ?st 40) = ''#22c55e''"
    by blast
  have str: "getAgeColor_bg decimalString ?st 40 =
      ''hsl(128.8888888888888888, 71.6666666666666666%, 45.5555555555555555%)''"
    by code_simp
  have rd: "hslToHex (getAgeColor 40 30 120 480) = ''#21ca3a''"
    by code_simp
  from decimalString_format h n str fb rd show ?thesis by (simp only: simp_thms)
qed

subsection \<open>The matchers and the language of the patterns\<close>

lemma lit_Some_iff: "lit p s = Some r \<longleftrightarrow> s = p @ r"
proof
  assume "lit p s = Some r"
  then have "take (length p) s = p" "r = drop (length p) s"
    by (auto simp: lit_def split: if_splits)
  then show "s = p @ r" by (metis append_take_drop_id)
next
  assume "s = p @ r"
  then show "lit p s = Some r" by (simp add: lit_def)
qed

lemma takeWhile_dropWhile_split:
  assumes "list_all P g" and "r = [] \<or> \<not> P (hd r)"
  shows "takeWhile P (g @ r) = g" and "dropWhile P (g @ r) = r"
proof -
  from assms(2) have t: "takeWhile P r = []" and d: "dropWhile P r = r"
    by (cases r; simp)+
  from assms(1) show "takeWhile P (g @ r) = g"
    by (simp add: list_all_iff takeWhile_append2 t)
  from assms(1) show "dropWhile P (g @ r) = r"
    by (simp add: list_all_iff dropWhile_append2 d)
qed

lemma many1_Some_iff:
  "many1 P s = Some (g, r) \<longleftrightarrow>
     s = g @ r \<and> g \<noteq> [] \<and> list_all P g \<and> (r = [] \<or> \<not> P (hd r))"
proof
  assume "many1 P s = Some (g, r)"
  then have g: "g = takeWhile P s" and r: "r = dropWhile P s" and ne: "g \<noteq> []"
    by (auto simp: many1_def split: if_splits)
  have "list_all P g" unfolding g by (auto simp: list_all_iff dest: set_takeWhileD)
  moreover have "r = [] \<or> \<not> P (hd r)" unfolding r by (metis hd_dropWhile)
  moreover have "s = g @ r" unfolding g r by simp
  ultimately show "s = g @ r \<and> g \<noteq> [] \<and> list_all P g \<and> (r = [] \<or> \<not> P (hd r))"
    using ne by simp
next
  assume a: "s = g @ r \<and> g \<noteq> [] \<and> list_all P g \<and> (r = [] \<or> \<not> P (hd r))"
  then have "takeWhile P s = g" "dropWhile P s = r"
    using takeWhile_dropWhile_split[of P g r] by simp_all
  with a show "many1 P s = Some (g, r)" by (simp add: many1_def)
qed

lemma skipSpace_eq_iff:
  "skipSpace s = r \<longleftrightarrow>
     (\<exists>w. s = w @ r \<and> list_all isSpace w \<and> (r = [] \<or> \<not> isSpace (hd r)))"
proof
  assume "skipSpace s = r"
  then have r: "r = dropWhile isSpace s" by (simp add: skipSpace_def)
  have "s = takeWhile isSpace s @ r" unfolding r by simp
  moreover have "list_all isSpace (takeWhile isSpace s)"
    by (auto simp: list_all_iff dest: set_takeWhileD)
  moreover have "r = [] \<or> \<not> isSpace (hd r)" unfolding r by (metis hd_dropWhile)
  ultimately show "\<exists>w. s = w @ r \<and> list_all isSpace w \<and> (r = [] \<or> \<not> isSpace (hd r))"
    by blast
next
  assume "\<exists>w. s = w @ r \<and> list_all isSpace w \<and> (r = [] \<or> \<not> isSpace (hd r))"
  then obtain w where "s = w @ r" "list_all isSpace w" "r = [] \<or> \<not> isSpace (hd r)"
    by blast
  then show "skipSpace s = r"
    using takeWhile_dropWhile_split(2)[of isSpace w r] by (simp add: skipSpace_def)
qed

lemma digit_not_space: "isDigit c \<Longrightarrow> \<not> isSpace c"
  by (auto simp: isDigit_def isSpace_def)

text \<open>
  The matcher of \<open>background.js\<close> succeeds on an input, with the groups \<open>g1\<close>,
  \<open>g2\<close>, \<open>g3\<close>, exactly when the input begins with a word of the pattern
  \<^verbatim>\<open>hsl\((\d+),\s*(\d+)%,\s*(\d+)%\)\<close> that has these groups.
\<close>

lemma hslMatchAt_bg_Some_iff:
  "hslMatchAt_bg s = Some (g1, g2, g3) \<longleftrightarrow>
     (\<exists>w1 w2 rest.
        s = ''hsl('' @ g1 @ '','' @ w1 @ g2 @ ''%,'' @ w2 @ g3 @ ''%)'' @ rest \<and>
        g1 \<noteq> [] \<and> list_all isDigit g1 \<and> list_all isSpace w1 \<and>
        g2 \<noteq> [] \<and> list_all isDigit g2 \<and> list_all isSpace w2 \<and>
        g3 \<noteq> [] \<and> list_all isDigit g3)"
  (is "?L \<longleftrightarrow> ?R")
proof
  assume ?L
  then obtain s1 s2 s3 s4 s5 s6 rest where
    a: "s = ''hsl('' @ s1" and b: "many1 isDigit s1 = Some (g1, s2)" and c: "s2 = '','' @ s3"
    and d: "many1 isDigit (skipSpace s3) = Some (g2, s4)" and e: "s4 = ''%,'' @ s5"
    and f: "many1 isDigit (skipSpace s5) = Some (g3, s6)" and g: "s6 = ''%)'' @ rest"
    unfolding hslMatchAt_bg_def
    by (auto simp: bind_eq_Some_conv lit_Some_iff simp del: append.simps)
  from d obtain w1 where w1: "s3 = w1 @ g2 @ s4" "list_all isSpace w1"
    using skipSpace_eq_iff[of s3 "g2 @ s4"] by (auto simp: many1_Some_iff)
  from f obtain w2 where w2: "s5 = w2 @ g3 @ s6" "list_all isSpace w2"
    using skipSpace_eq_iff[of s5 "g3 @ s6"] by (auto simp: many1_Some_iff)
  from b d f have gs: "s1 = g1 @ s2" "g1 \<noteq> []" "list_all isDigit g1"
      "g2 \<noteq> []" "list_all isDigit g2" "g3 \<noteq> []" "list_all isDigit g3"
    by (simp_all add: many1_Some_iff)
  have "s = ''hsl('' @ g1 @ '','' @ w1 @ g2 @ ''%,'' @ w2 @ g3 @ ''%)'' @ rest"
    unfolding a gs(1) c w1(1) e w2(1) g by simp
  with gs w1(2) w2(2) show ?R by blast
next
  assume ?R
  then obtain w1 w2 rest where
    s: "s = ''hsl('' @ g1 @ '','' @ w1 @ g2 @ ''%,'' @ w2 @ g3 @ ''%)'' @ rest"
    and g1: "g1 \<noteq> []" "list_all isDigit g1" and w1: "list_all isSpace w1"
    and g2: "g2 \<noteq> []" "list_all isDigit g2" and w2: "list_all isSpace w2"
    and g3: "g3 \<noteq> []" "list_all isDigit g3"
    by blast
  have nd: "\<not> isDigit CHR '',''" "\<not> isDigit CHR ''%''" by (simp_all add: isDigit_def)
  from g2 have h2: "\<not> isSpace (hd (g2 @ ''%,'' @ w2 @ g3 @ ''%)'' @ rest))"
    by (cases g2) (simp_all add: digit_not_space)
  from g3 have h3: "\<not> isSpace (hd (g3 @ ''%)'' @ rest))"
    by (cases g3) (simp_all add: digit_not_space)
  have m1: "many1 isDigit (g1 @ '','' @ w1 @ g2 @ ''%,'' @ w2 @ g3 @ ''%)'' @ rest) =
      Some (g1, '','' @ w1 @ g2 @ ''%,'' @ w2 @ g3 @ ''%)'' @ rest)"
    using g1 nd by (simp add: many1_Some_iff)
  have k2: "skipSpace (w1 @ g2 @ ''%,'' @ w2 @ g3 @ ''%)'' @ rest) =
      g2 @ ''%,'' @ w2 @ g3 @ ''%)'' @ rest"
    using w1 h2 by (subst skipSpace_eq_iff) blast
  have m2: "many1 isDigit (g2 @ ''%,'' @ w2 @ g3 @ ''%)'' @ rest) =
      Some (g2, ''%,'' @ w2 @ g3 @ ''%)'' @ rest)"
    using g2 nd by (simp add: many1_Some_iff)
  have k3: "skipSpace (w2 @ g3 @ ''%)'' @ rest) = g3 @ ''%)'' @ rest"
    using w2 h3 by (subst skipSpace_eq_iff) blast
  have m3: "many1 isDigit (g3 @ ''%)'' @ rest) = Some (g3, ''%)'' @ rest)"
    using g3 nd by (simp add: many1_Some_iff)
  have l1: "lit ''hsl('' s = Some (g1 @ '','' @ w1 @ g2 @ ''%,'' @ w2 @ g3 @ ''%)'' @ rest)"
    unfolding lit_Some_iff s by simp
  have l2: "lit '','' ('','' @ w1 @ g2 @ ''%,'' @ w2 @ g3 @ ''%)'' @ rest) =
      Some (w1 @ g2 @ ''%,'' @ w2 @ g3 @ ''%)'' @ rest)"
    unfolding lit_Some_iff by simp
  have l3: "lit ''%,'' (''%,'' @ w2 @ g3 @ ''%)'' @ rest) = Some (w2 @ g3 @ ''%)'' @ rest)"
    unfolding lit_Some_iff by simp
  have l4: "lit ''%)'' (''%)'' @ rest) = Some rest"
    unfolding lit_Some_iff by simp
  show ?L
    unfolding hslMatchAt_bg_def
    by (simp add: l1 m1 l2 k2 m2 l3 k3 m3 l4 del: append.simps)
qed

lemma skip_many1_Some_iff:
  assumes ns: "\<And>c. P c \<Longrightarrow> \<not> isSpace c"
  shows "many1 P (skipSpace s) = Some (g, r) \<longleftrightarrow>
     (\<exists>w. s = w @ g @ r \<and> list_all isSpace w \<and> g \<noteq> [] \<and> list_all P g \<and>
          (r = [] \<or> \<not> P (hd r)))"
proof
  assume "many1 P (skipSpace s) = Some (g, r)"
  then have m: "skipSpace s = g @ r" "g \<noteq> []" "list_all P g" "r = [] \<or> \<not> P (hd r)"
    by (simp_all add: many1_Some_iff)
  from m(1) obtain w where "s = w @ g @ r" "list_all isSpace w"
    unfolding skipSpace_eq_iff by blast
  with m show "\<exists>w. s = w @ g @ r \<and> list_all isSpace w \<and> g \<noteq> [] \<and> list_all P g \<and>
          (r = [] \<or> \<not> P (hd r))"
    by blast
next
  assume "\<exists>w. s = w @ g @ r \<and> list_all isSpace w \<and> g \<noteq> [] \<and> list_all P g \<and>
          (r = [] \<or> \<not> P (hd r))"
  then obtain w where w: "s = w @ g @ r" "list_all isSpace w" and g: "g \<noteq> []" "list_all P g"
    and r: "r = [] \<or> \<not> P (hd r)"
    by blast
  from g have "\<not> isSpace (hd (g @ r))" by (cases g) (simp_all add: ns)
  with w have "skipSpace s = g @ r" unfolding skipSpace_eq_iff by blast
  with g r show "many1 P (skipSpace s) = Some (g, r)" by (simp add: many1_Some_iff)
qed

lemma skip_lit_Some_iff:
  assumes "\<not> isSpace c"
  shows "lit [c] (skipSpace s) = Some r \<longleftrightarrow> (\<exists>w. s = w @ c # r \<and> list_all isSpace w)"
  using assms by (auto simp: lit_Some_iff skipSpace_eq_iff)

lemma skip_many1_SomeI:
  assumes "list_all isSpace w" and "g \<noteq> []" and "list_all P g"
    and "r = [] \<or> \<not> P (hd r)" and "\<And>c. P c \<Longrightarrow> \<not> isSpace c"
  shows "many1 P (skipSpace (w @ g @ r)) = Some (g, r)"
proof -
  have "\<exists>v. w @ g @ r = v @ g @ r \<and> list_all isSpace v \<and> g \<noteq> [] \<and> list_all P g \<and>
          (r = [] \<or> \<not> P (hd r))"
    using assms(1-4) by (intro exI[of _ w]) simp
  then show ?thesis
    by (simp only: skip_many1_Some_iff[of P, OF assms(5)])
qed

lemma skip_lit_SomeI:
  assumes "list_all isSpace w" and "\<not> isSpace c"
  shows "lit [c] (skipSpace (w @ [c] @ r)) = Some r"
proof -
  have "\<exists>v. w @ [c] @ r = v @ c # r \<and> list_all isSpace v"
    using assms(1) by (intro exI[of _ w]) simp
  then show ?thesis
    by (simp only: skip_lit_Some_iff[OF assms(2)])
qed

lemma digitOrDot_not_space: "isDigitOrDot c \<Longrightarrow> \<not> isSpace c"
  by (auto simp: isDigitOrDot_def isDigit_def isSpace_def)

lemma hslMatchAt_Some_iff:
  "hslMatchAt s = Some (g1, g2, g3) \<longleftrightarrow>
     (\<exists>w0 w1 w2 w3 w4 w5 rest.
        s = ''hsl('' @ w0 @ g1 @ w1 @ '','' @ w2 @ g2 @ ''%'' @ w3 @ '','' @ w4 @ g3 @ ''%'' @
              w5 @ '')'' @ rest \<and>
        list_all isSpace w0 \<and> g1 \<noteq> [] \<and> list_all isDigitOrDot g1 \<and> list_all isSpace w1 \<and>
        list_all isSpace w2 \<and> g2 \<noteq> [] \<and> list_all isDigitOrDot g2 \<and> list_all isSpace w3 \<and>
        list_all isSpace w4 \<and> g3 \<noteq> [] \<and> list_all isDigitOrDot g3 \<and> list_all isSpace w5)"
  (is "?L \<longleftrightarrow> ?R")
proof
  note sm = skip_many1_Some_iff[of isDigitOrDot, OF digitOrDot_not_space]
  have nsp: "\<not> isSpace CHR '',''" "\<not> isSpace CHR '')''" by (simp_all add: isSpace_def)
  note sl = skip_lit_Some_iff[OF nsp(1)] skip_lit_Some_iff[OF nsp(2)]
  assume ?L
  then obtain s1 s2 s3 s4 s5 s6 s7 s8 rest where
    a: "s = ''hsl('' @ s1" and b: "many1 isDigitOrDot (skipSpace s1) = Some (g1, s2)"
    and c: "lit '','' (skipSpace s2) = Some s3"
    and d: "many1 isDigitOrDot (skipSpace s3) = Some (g2, s4)" and e: "s4 = ''%'' @ s5"
    and f: "lit '','' (skipSpace s5) = Some s6"
    and g: "many1 isDigitOrDot (skipSpace s6) = Some (g3, s7)" and h: "s7 = ''%'' @ s8"
    and i: "lit '')'' (skipSpace s8) = Some rest"
    unfolding hslMatchAt_def
    by (auto simp: bind_eq_Some_conv lit_Some_iff[of "''hsl(''"] lit_Some_iff[of "''%''"]
          simp del: append.simps)
  from b obtain w0 where w0: "s1 = w0 @ g1 @ s2" "list_all isSpace w0"
      "g1 \<noteq> []" "list_all isDigitOrDot g1"
    by (auto simp: sm)
  from c obtain w1 where w1: "s2 = w1 @ '','' @ s3" "list_all isSpace w1"
    by (auto simp: sl)
  from d obtain w2 where w2: "s3 = w2 @ g2 @ s4" "list_all isSpace w2"
      "g2 \<noteq> []" "list_all isDigitOrDot g2"
    by (auto simp: sm)
  from f obtain w3 where w3: "s5 = w3 @ '','' @ s6" "list_all isSpace w3"
    by (auto simp: sl)
  from g obtain w4 where w4: "s6 = w4 @ g3 @ s7" "list_all isSpace w4"
      "g3 \<noteq> []" "list_all isDigitOrDot g3"
    by (auto simp: sm)
  from i obtain w5 where w5: "s8 = w5 @ '')'' @ rest" "list_all isSpace w5"
    by (auto simp: sl)
  have "s = ''hsl('' @ w0 @ g1 @ w1 @ '','' @ w2 @ g2 @ ''%'' @ w3 @ '','' @ w4 @ g3 @ ''%'' @
              w5 @ '')'' @ rest"
    unfolding a w0(1) w1(1) w2(1) e w3(1) w4(1) h w5(1) by simp
  with w0(2-) w1(2) w2(2-) w3(2) w4(2-) w5(2) show ?R by blast
next
  note sm = skip_many1_Some_iff[of isDigitOrDot, OF digitOrDot_not_space]
  have nsp: "\<not> isSpace CHR '',''" "\<not> isSpace CHR '')''" by (simp_all add: isSpace_def)
  note sl = skip_lit_Some_iff[OF nsp(1)] skip_lit_Some_iff[OF nsp(2)]
  assume ?R
  then obtain w0 w1 w2 w3 w4 w5 rest where
    s: "s = ''hsl('' @ w0 @ g1 @ w1 @ '','' @ w2 @ g2 @ ''%'' @ w3 @ '','' @ w4 @ g3 @ ''%'' @
              w5 @ '')'' @ rest"
    and w0: "list_all isSpace w0" and g1: "g1 \<noteq> []" "list_all isDigitOrDot g1"
    and w1: "list_all isSpace w1" and w2: "list_all isSpace w2"
    and g2: "g2 \<noteq> []" "list_all isDigitOrDot g2" and w3: "list_all isSpace w3"
    and w4: "list_all isSpace w4" and g3: "g3 \<noteq> []" "list_all isDigitOrDot g3"
    and w5: "list_all isSpace w5"
    by blast
  let ?r8 = "w5 @ '')'' @ rest"
  let ?r7 = "''%'' @ ?r8"
  let ?r6 = "w4 @ g3 @ ?r7"
  let ?r5 = "w3 @ '','' @ ?r6"
  let ?r4 = "''%'' @ ?r5"
  let ?r3 = "w2 @ g2 @ ?r4"
  let ?r2 = "w1 @ '','' @ ?r3"
  let ?r1 = "w0 @ g1 @ ?r2"
  have nd: "\<not> isDigitOrDot CHR '',''" "\<not> isDigitOrDot CHR ''%''"
    by (simp_all add: isDigitOrDot_def isDigit_def)
  have sp_dd: "\<And>c. isSpace c \<Longrightarrow> \<not> isDigitOrDot c"
    using digitOrDot_not_space by blast
  have e2: "?r2 = [] \<or> \<not> isDigitOrDot (hd ?r2)"
    using w1 nd by (cases w1) (simp_all add: sp_dd)
  have l1: "lit ''hsl('' s = Some ?r1" unfolding lit_Some_iff s by simp
  have m1: "many1 isDigitOrDot (skipSpace ?r1) = Some (g1, ?r2)"
    by (rule skip_many1_SomeI[OF w0 g1 e2 digitOrDot_not_space])
  have c1: "lit '','' (skipSpace ?r2) = Some ?r3"
    by (rule skip_lit_SomeI[OF w1 nsp(1)])
  have m2: "many1 isDigitOrDot (skipSpace ?r3) = Some (g2, ?r4)"
    by (rule skip_many1_SomeI[OF w2 g2 _ digitOrDot_not_space]) (simp add: nd)
  have p1: "lit ''%'' ?r4 = Some ?r5" unfolding lit_Some_iff by simp
  have c2: "lit '','' (skipSpace ?r5) = Some ?r6"
    by (rule skip_lit_SomeI[OF w3 nsp(1)])
  have m3: "many1 isDigitOrDot (skipSpace ?r6) = Some (g3, ?r7)"
    by (rule skip_many1_SomeI[OF w4 g3 _ digitOrDot_not_space]) (simp add: nd)
  have p2: "lit ''%'' ?r7 = Some ?r8" unfolding lit_Some_iff by simp
  have c3: "lit '')'' (skipSpace ?r8) = Some rest"
    by (rule skip_lit_SomeI[OF w5 nsp(2)])
  show ?L
    unfolding hslMatchAt_def
    by (simp add: l1 m1 c1 m2 p1 c2 m3 p2 c3 del: append.simps)
qed

lemma firstMatch_None_iff:
  "firstMatch pat s = None \<longleftrightarrow> (\<forall>pre post. s = pre @ post \<longrightarrow> pat post = None)"
proof (induction s)
  case Nil
  then show ?case by simp
next
  case (Cons c cs)
  have "(\<forall>pre post. c # cs = pre @ post \<longrightarrow> pat post = None) \<longleftrightarrow>
        pat (c # cs) = None \<and> (\<forall>pre post. cs = pre @ post \<longrightarrow> pat post = None)"
    by (auto simp: Cons_eq_append_conv)
  with Cons show ?case by (auto split: option.splits)
qed

lemma hslMatchAt_word:
  "hslMatchAt s = Some (g1, g2, g3) \<longleftrightarrow> (\<exists>w rest. s = w @ rest \<and> patternWord g1 g2 g3 w)"
proof
  assume "hslMatchAt s = Some (g1, g2, g3)"
  then obtain w0 w1 w2 w3 w4 w5 rest where
    s: "s = ''hsl('' @ w0 @ g1 @ w1 @ '','' @ w2 @ g2 @ ''%'' @ w3 @ '','' @ w4 @ g3 @ ''%'' @
              w5 @ '')'' @ rest"
    and c: "list_all isSpace w0 \<and> g1 \<noteq> [] \<and> list_all isDigitOrDot g1 \<and> list_all isSpace w1 \<and>
        list_all isSpace w2 \<and> g2 \<noteq> [] \<and> list_all isDigitOrDot g2 \<and> list_all isSpace w3 \<and>
        list_all isSpace w4 \<and> g3 \<noteq> [] \<and> list_all isDigitOrDot g3 \<and> list_all isSpace w5"
    unfolding hslMatchAt_Some_iff by blast
  let ?w = "''hsl('' @ w0 @ g1 @ w1 @ '','' @ w2 @ g2 @ ''%'' @ w3 @ '','' @ w4 @ g3 @ ''%'' @
              w5 @ '')''"
  have "s = ?w @ rest" unfolding s by simp
  moreover have "patternWord g1 g2 g3 ?w" unfolding patternWord_def using c by blast
  ultimately show "\<exists>w rest. s = w @ rest \<and> patternWord g1 g2 g3 w" by blast
next
  assume "\<exists>w rest. s = w @ rest \<and> patternWord g1 g2 g3 w"
  then obtain w rest where s: "s = w @ rest" and w: "patternWord g1 g2 g3 w" by blast
  from w obtain w0 w1 w2 w3 w4 w5 where
    w': "w = ''hsl('' @ w0 @ g1 @ w1 @ '','' @ w2 @ g2 @ ''%'' @ w3 @ '','' @ w4 @ g3 @ ''%'' @
              w5 @ '')''"
    and c: "list_all isSpace w0 \<and> g1 \<noteq> [] \<and> list_all isDigitOrDot g1 \<and> list_all isSpace w1 \<and>
        list_all isSpace w2 \<and> g2 \<noteq> [] \<and> list_all isDigitOrDot g2 \<and> list_all isSpace w3 \<and>
        list_all isSpace w4 \<and> g3 \<noteq> [] \<and> list_all isDigitOrDot g3 \<and> list_all isSpace w5"
    unfolding patternWord_def by blast
  have "s = ''hsl('' @ w0 @ g1 @ w1 @ '','' @ w2 @ g2 @ ''%'' @ w3 @ '','' @ w4 @ g3 @ ''%'' @
              w5 @ '')'' @ rest"
    unfolding s w' by simp
  with c show "hslMatchAt s = Some (g1, g2, g3)"
    unfolding hslMatchAt_Some_iff by blast
qed

lemma hslMatchAt_bg_word:
  "hslMatchAt_bg s = Some (g1, g2, g3) \<longleftrightarrow> (\<exists>w rest. s = w @ rest \<and> patternWord_bg g1 g2 g3 w)"
proof
  assume "hslMatchAt_bg s = Some (g1, g2, g3)"
  then obtain w1 w2 rest where
    s: "s = ''hsl('' @ g1 @ '','' @ w1 @ g2 @ ''%,'' @ w2 @ g3 @ ''%)'' @ rest"
    and c: "g1 \<noteq> [] \<and> list_all isDigit g1 \<and> list_all isSpace w1 \<and>
        g2 \<noteq> [] \<and> list_all isDigit g2 \<and> list_all isSpace w2 \<and>
        g3 \<noteq> [] \<and> list_all isDigit g3"
    unfolding hslMatchAt_bg_Some_iff by blast
  let ?w = "''hsl('' @ g1 @ '','' @ w1 @ g2 @ ''%,'' @ w2 @ g3 @ ''%)''"
  have "s = ?w @ rest" unfolding s by simp
  moreover have "patternWord_bg g1 g2 g3 ?w" unfolding patternWord_bg_def using c by blast
  ultimately show "\<exists>w rest. s = w @ rest \<and> patternWord_bg g1 g2 g3 w" by blast
next
  assume "\<exists>w rest. s = w @ rest \<and> patternWord_bg g1 g2 g3 w"
  then obtain w rest where s: "s = w @ rest" and w: "patternWord_bg g1 g2 g3 w" by blast
  from w obtain w1 w2 where
    w': "w = ''hsl('' @ g1 @ '','' @ w1 @ g2 @ ''%,'' @ w2 @ g3 @ ''%)''"
    and c: "g1 \<noteq> [] \<and> list_all isDigit g1 \<and> list_all isSpace w1 \<and>
        g2 \<noteq> [] \<and> list_all isDigit g2 \<and> list_all isSpace w2 \<and>
        g3 \<noteq> [] \<and> list_all isDigit g3"
    unfolding patternWord_bg_def by blast
  have "s = ''hsl('' @ g1 @ '','' @ w1 @ g2 @ ''%,'' @ w2 @ g3 @ ''%)'' @ rest"
    unfolding s w' by simp
  with c show "hslMatchAt_bg s = Some (g1, g2, g3)"
    unfolding hslMatchAt_bg_Some_iff by blast
qed

lemma firstMatch_None_word:
  assumes at: "\<And>t g. pat t = Some g \<longleftrightarrow> (\<exists>w rest. t = w @ rest \<and> W g w)"
  shows "firstMatch pat s = None \<longleftrightarrow> \<not> (\<exists>pre w post g. s = pre @ w @ post \<and> W g w)"
proof
  assume n: "firstMatch pat s = None"
  show "\<not> (\<exists>pre w post g. s = pre @ w @ post \<and> W g w)"
  proof
    assume "\<exists>pre w post g. s = pre @ w @ post \<and> W g w"
    then obtain pre w post g where s: "s = pre @ (w @ post)" and w: "W g w" by auto
    from w have "pat (w @ post) = Some g" unfolding at by (intro exI[of _ w] exI[of _ post]) simp
    moreover from n s have "pat (w @ post) = None"
      unfolding firstMatch_None_iff by (elim allE[of _ pre] allE[of _ "w @ post"]) simp
    ultimately show False by simp
  qed
next
  assume n: "\<not> (\<exists>pre w post g. s = pre @ w @ post \<and> W g w)"
  show "firstMatch pat s = None"
    unfolding firstMatch_None_iff
  proof (intro allI impI)
    fix pre post
    assume s: "s = pre @ post"
    show "pat post = None"
    proof (cases "pat post")
      case None
      then show ?thesis .
    next
      case (Some g)
      then obtain w rest where "post = w @ rest" "W g w" unfolding at by auto
      with s have "s = pre @ w @ rest \<and> W g w" by simp
      then have "\<exists>pre w post g. s = pre @ w @ post \<and> W g w"
        by (intro exI[of _ pre] exI[of _ w] exI[of _ rest] exI[of _ g])
      with n show ?thesis by (rule notE)
    qed
  qed
qed

text \<open>
  So \<open>match\<close> gives \<open>null\<close> exactly for the strings that hold no word of the
  pattern.
\<close>

lemma hslMatch_None_iff: "hslMatch s = None \<longleftrightarrow> \<not> holdsPatternWord s"
proof -
  have "firstMatch hslMatchAt s = None \<longleftrightarrow>
      \<not> (\<exists>pre w post g. s = pre @ w @ post \<and> (case g of (g1, g2, g3) \<Rightarrow> patternWord g1 g2 g3 w))"
  proof (rule firstMatch_None_word)
    fix t and g :: "string \<times> string \<times> string"
    obtain g1 g2 g3 where g: "g = (g1, g2, g3)" by (cases g)
    show "hslMatchAt t = Some g \<longleftrightarrow>
        (\<exists>w rest. t = w @ rest \<and> (case g of (g1, g2, g3) \<Rightarrow> patternWord g1 g2 g3 w))"
      unfolding g by (simp add: hslMatchAt_word)
  qed
  then show ?thesis
    by (simp add: hslMatch_def holdsPatternWord_def)
qed

lemma hslMatch_bg_None_iff: "hslMatch_bg s = None \<longleftrightarrow> \<not> holdsPatternWord_bg s"
proof -
  have "firstMatch hslMatchAt_bg s = None \<longleftrightarrow>
      \<not> (\<exists>pre w post g. s = pre @ w @ post \<and> (case g of (g1, g2, g3) \<Rightarrow> patternWord_bg g1 g2 g3 w))"
  proof (rule firstMatch_None_word)
    fix t and g :: "string \<times> string \<times> string"
    obtain g1 g2 g3 where g: "g = (g1, g2, g3)" by (cases g)
    show "hslMatchAt_bg t = Some g \<longleftrightarrow>
        (\<exists>w rest. t = w @ rest \<and> (case g of (g1, g2, g3) \<Rightarrow> patternWord_bg g1 g2 g3 w))"
      unfolding g by (simp add: hslMatchAt_bg_word)
  qed
  then show ?thesis
    by (simp add: hslMatch_bg_def holdsPatternWord_bg_def)
qed

subsection \<open>Fallback of \<open>hslToHex\<close>\<close>

lemma getAgeHSL_nonneg:
  "0 \<le> hue (getAgeHSL m fT sT oT) \<and> 0 \<le> saturation (getAgeHSL m fT sT oT) \<and>
   0 \<le> lightness (getAgeHSL m fT sT oT)"
proof -
  consider (z1) "m \<le> fT" | (z2) "fT < m" "m \<le> sT" | (z3) "fT < m" "sT < m" "m \<le> oT"
    | (z4) "fT < m" "sT < m" "oT < m"
    by linarith
  then show ?thesis
  proof cases
    case z1
    then show ?thesis by (simp add: getAgeHSL_zone1)
  next
    case z2
    define p where "p = (m - fT) / (sT - fT)"
    from progress_bounds[OF z2] have "0 < p" "p \<le> 1" by (simp_all add: p_def)
    then have "0 \<le> 140 - p * 100" "0 \<le> 70 + p * 15" "0 \<le> 45 + p * 5" by linarith+
    then show ?thesis unfolding getAgeHSL_zone2[OF z2] p_def by simp
  next
    case z3
    define p where "p = (m - sT) / (oT - sT)"
    from progress_bounds[OF z3(2,3)] have "0 < p" "p \<le> 1" by (simp_all add: p_def)
    then have "0 \<le> 40 - p * 40" "0 \<le> 50 - p * 5" by linarith+
    then show ?thesis unfolding getAgeHSL_zone3[OF z3] p_def by simp
  next
    case z4
    then show ?thesis by (simp add: getAgeHSL_zone4)
  qed
qed

lemma jsRound_nonneg: "0 \<le> x \<Longrightarrow> 0 \<le> jsRound x"
  by (simp add: jsRound_def)

lemma hslMatchAt_digits:
  assumes A: "list_all isDigit A" "A \<noteq> []" and B: "list_all isDigit B" "B \<noteq> []"
    and C: "list_all isDigit C" "C \<noteq> []"
  shows "hslMatchAt (hslString A B C) = Some (A, B, C)"
proof -
  have dd: "\<And>X. list_all isDigit X \<Longrightarrow> list_all isDigitOrDot X"
    by (simp add: list_all_iff isDigitOrDot_def)
  have comma: "\<not> isDigitOrDot CHR '',''" "\<not> isSpace CHR '',''"
    and pct: "\<not> isDigitOrDot CHR ''%''" "\<not> isSpace CHR ''%''"
    and par: "\<not> isSpace CHR '')''"
    by (simp_all add: isDigitOrDot_def isDigit_def isSpace_def)
  note mA = many1_stop[OF dd[OF A(1)] comma(1)]
  note mB = many1_stop[OF dd[OF B(1)] pct(1)]
  note mC = many1_stop[OF dd[OF C(1)] pct(1)]
  note sA = skipSpace_stop[OF A(1) comma(2)]
  note sB = skipSpace_stop[OF B(1) pct(2)]
  note sC = skipSpace_stop[OF C(1) pct(2)]
  have s0: "\<And>c r. \<not> isSpace c \<Longrightarrow> skipSpace (c # r) = c # r"
    by (simp add: skipSpace_def)
  show ?thesis
    using A(2) B(2) C(2)
    by (simp add: hslMatchAt_def hslString_def lit_simps mA mB mC sA sB sC
        skipSpace_space s0 comma pct par)
qed

lemma getAgeColor_matches:
  "hslMatch (getAgeColor m fT sT oT) \<noteq> None"
proof -
  let ?c = "getAgeHSL m fT sT oT"
  have nn: "0 \<le> jsRound (hue ?c)" "0 \<le> jsRound (saturation ?c)" "0 \<le> jsRound (lightness ?c)"
    using getAgeHSL_nonneg[of m fT sT oT] by (simp_all add: jsRound_nonneg)
  have str: "getAgeColor m fT sT oT =
      hslString (natToString 10 (nat (jsRound (hue ?c))))
                (natToString 10 (nat (jsRound (saturation ?c))))
                (natToString 10 (nat (jsRound (lightness ?c))))"
    using nn by (simp add: getAgeColor_def Let_def intToString_def)
  have "hslMatchAt (getAgeColor m fT sT oT) \<noteq> None"
    unfolding str
    by (simp add: hslMatchAt_digits natToString_digits natToString_nonempty)
  moreover have "getAgeColor m fT sT oT \<noteq> []"
    by (simp add: str hslString_def)
  ultimately show ?thesis
    by (cases "getAgeColor m fT sT oT") (auto simp: hslMatch_def)
qed

lemma firstMatch_no_h_rounded:
  "CHR ''h'' \<notin> set s \<Longrightarrow> firstMatch hslMatchAt s = None"
  by (induction s) (auto simp: hslMatchAt_def lit_simps)

lemma patternWord_prefix:
  assumes "patternWord g1 g2 g3 w \<or> patternWord_bg g1 g2 g3 w"
  shows "\<exists>r. w = ''hsl('' @ r"
  using assms unfolding patternWord_def patternWord_bg_def by (elim disjE exE conjE) blast+

lemma holdsPatternWord_prefix:
  assumes "holdsPatternWord s \<or> holdsPatternWord_bg s"
  shows "\<exists>pre post. s = pre @ ''hsl('' @ post"
proof -
  from assms obtain pre w post g1 g2 g3 where s: "s = pre @ w @ post"
    and w: "patternWord g1 g2 g3 w \<or> patternWord_bg g1 g2 g3 w"
    unfolding holdsPatternWord_def holdsPatternWord_bg_def by (elim disjE exE conjE) blast+
  from patternWord_prefix[OF w] obtain r where "w = ''hsl('' @ r" by (elim exE)
  with s have "s = pre @ ''hsl('' @ (r @ post)" by simp
  then show ?thesis by (intro exI[of _ pre] exI[of _ "r @ post"])
qed

text \<open>
  Claim C8, as the code has it. \<open>hslToHex\<close> has no error of its own and leaves
  nothing to its caller: when its pattern finds no match, that is, when the string holds
  no word of the pattern, the function itself returns the fixed colour \<open>#22c55e\<close>,
  in both variants. A string in which \<open>hsl(\<close> does not occur, for one, holds no such
  word. In the variant that rounds, the string of \<open>getAgeColor\<close> always matches, so
  there the fixed colour is never returned for want of a match.
\<close>

theorem hslToHex_fallback:
  "(hslMatch hslStr = None \<longleftrightarrow> \<not> holdsPatternWord hslStr) \<and>
   (hslMatch_bg hslStr = None \<longleftrightarrow> \<not> holdsPatternWord_bg hslStr) \<and>
   (\<not> holdsPatternWord hslStr \<longrightarrow> hslToHex hslStr = ''#22c55e'') \<and>
   (\<not> holdsPatternWord_bg hslStr \<longrightarrow> hslToHex_bg hslStr = ''#22c55e'') \<and>
   ((\<nexists>pre post. hslStr = pre @ ''hsl('' @ post) \<longrightarrow>
      hslToHex hslStr = ''#22c55e'' \<and> hslToHex_bg hslStr = ''#22c55e'') \<and>
   hslMatch (getAgeColor m fT sT oT) \<noteq> None"
proof -
  have a: "\<not> holdsPatternWord hslStr \<longrightarrow> hslToHex hslStr = ''#22c55e''"
    by (simp add: hslToHex_def hslMatch_None_iff[symmetric])
  have b: "\<not> holdsPatternWord_bg hslStr \<longrightarrow> hslToHex_bg hslStr = ''#22c55e''"
    by (simp add: hslToHex_bg_def hslMatch_bg_None_iff[symmetric])
  have c: "(\<nexists>pre post. hslStr = pre @ ''hsl('' @ post) \<longrightarrow>
      hslToHex hslStr = ''#22c55e'' \<and> hslToHex_bg hslStr = ''#22c55e''"
  proof
    assume n: "\<nexists>pre post. hslStr = pre @ ''hsl('' @ post"
    with holdsPatternWord_prefix[of hslStr]
    have "\<not> holdsPatternWord hslStr" "\<not> holdsPatternWord_bg hslStr" by blast+
    with a b show "hslToHex hslStr = ''#22c55e'' \<and> hslToHex_bg hslStr = ''#22c55e''"
      by (simp only: simp_thms)
  qed
  from a b c hslMatch_None_iff[of hslStr] hslMatch_bg_None_iff[of hslStr]
    getAgeColor_matches[of m fT sT oT]
  show ?thesis by (simp only: simp_thms)
qed

theorem hslToHex_fallback_witness:
  "\<not> holdsPatternWord ''rgb(12, 34, 56)'' \<and> hslToHex ''rgb(12, 34, 56)'' = ''#22c55e'' \<and>
   \<not> holdsPatternWord_bg ''hsl(90, 77.5%, 47.5%)'' \<and>
   hslToHex_bg ''hsl(90, 77.5%, 47.5%)'' = ''#22c55e'' \<and>
   (\<nexists>pre post. ''hs1(1, 2%, 3%)'' = pre @ ''hsl('' @ post) \<and>
   hslToHex ''hs1(1, 2%, 3%)'' = ''#22c55e'' \<and> hslToHex_bg ''hs1(1, 2%, 3%)'' = ''#22c55e'' \<and>
   hslToHex ''hsl(90, 77.5%, 47.5%)'' = ''#79d71b''"
proof -
  have m1: "\<not> holdsPatternWord ''rgb(12, 34, 56)''"
    unfolding hslMatch_None_iff[symmetric] by code_simp
  have m2: "\<not> holdsPatternWord_bg ''hsl(90, 77.5%, 47.5%)''"
    unfolding hslMatch_bg_None_iff[symmetric] by code_simp
  have m3: "\<nexists>pre post. ''hs1(1, 2%, 3%)'' = pre @ ''hsl('' @ post"
    by (auto simp: append_eq_Cons_conv Cons_eq_append_conv)
  from hslToHex_fallback[where hslStr = "''rgb(12, 34, 56)''"] m1
  have a: "hslToHex ''rgb(12, 34, 56)'' = ''#22c55e''" by blast
  from hslToHex_fallback[where hslStr = "''hsl(90, 77.5%, 47.5%)''"] m2
  have b: "hslToHex_bg ''hsl(90, 77.5%, 47.5%)'' = ''#22c55e''" by blast
  from hslToHex_fallback[where hslStr = "''hs1(1, 2%, 3%)''"] m3
  have c: "hslToHex ''hs1(1, 2%, 3%)'' = ''#22c55e'' \<and> hslToHex_bg ''hs1(1, 2%, 3%)'' = ''#22c55e''"
    by blast
  have d: "hslToHex ''hsl(90, 77.5%, 47.5%)'' = ''#79d71b''" by code_simp
  from m1 m2 m3 a b c d show ?thesis by (simp only: simp_thms)
qed

text \<open>
  Where the fixed colour is not returned although the string is no colour. The pattern of
  the later variant takes any run of digits and dots as a group, so
  \<^verbatim>\<open>hsl(., .%, .%)\<close> matches; \<open>parseFloat\<close> of a lone dot is \<open>NaN\<close>, and the
  result is not \<open>#22c55e\<close>.
\<close>

theorem hslToHex_numberless_not_rejected:
  "parseFloat ''.'' = None \<and>
   hslMatch ''hsl(., .%, .%)'' = Some (''.'', ''.'', ''.'') \<and>
   hslToHex ''hsl(., .%, .%)'' = ''#NaNNaNNaN'' \<and>
   hslToHex ''hsl(., .%, .%)'' \<noteq> ''#22c55e''"
proof -
  have a: "parseFloat ''.'' = None"
    by (simp add: parseFloat_def isDigit_def)
  have b: "hslMatch ''hsl(., .%, .%)'' = Some (''.'', ''.'', ''.'')"
    by code_simp
  have c: "hslToHex ''hsl(., .%, .%)'' = ''#NaNNaNNaN''"
    by (simp add: hslToHex_def b a)
  from a b c show ?thesis by simp
qed

section \<open>Continuity of the age classifier at the zone boundaries\<close>

lemma isCont_glue:
  fixes g l r :: "real \<Rightarrow> real"
  assumes ab: "a < x" "x < b"
    and left: "\<And>m. a < m \<Longrightarrow> m \<le> x \<Longrightarrow> g m = l m"
    and right: "\<And>m. x < m \<Longrightarrow> m < b \<Longrightarrow> g m = r m"
    and cl: "isCont l x" and cr: "isCont r x" and eq: "l x = r x"
  shows "isCont g x"
proof -
  have gx: "g x = l x" using left[of x] ab by simp
  have "eventually (\<lambda>m. m \<in> {a<..<x}) (at_left x)"
    using ab(1) by (rule eventually_at_left_real)
  then have el: "eventually (\<lambda>m. g m = l m) (at_left x)"
    by (rule eventually_mono) (simp add: left)
  have "eventually (\<lambda>m. m \<in> {x<..<b}) (at_right x)"
    using ab(2) by (rule eventually_at_right_real)
  then have er: "eventually (\<lambda>m. g m = r m) (at_right x)"
    by (rule eventually_mono) (simp add: right)
  from cl have "(l \<longlongrightarrow> l x) (at_left x)"
    unfolding isCont_def by (simp add: filterlim_at_split)
  with el have L: "(g \<longlongrightarrow> g x) (at_left x)"
    unfolding gx by (simp add: tendsto_cong)
  from cr have "(r \<longlongrightarrow> r x) (at_right x)"
    unfolding isCont_def by (simp add: filterlim_at_split)
  with er have R: "(g \<longlongrightarrow> g x) (at_right x)"
    unfolding gx eq by (simp add: tendsto_cong)
  from L R show ?thesis
    unfolding isCont_def by (rule filterlim_split_at)
qed

lemma not_isCont_jump:
  fixes g :: "real \<Rightarrow> real"
  assumes right: "\<And>m. x < m \<Longrightarrow> g m = c" and ne: "g x \<noteq> c"
  shows "\<not> isCont g x"
proof
  assume "isCont g x"
  then have "(g \<longlongrightarrow> g x) (at_right x)"
    unfolding isCont_def by (simp add: filterlim_at_split)
  moreover have "eventually (\<lambda>m. g m = c) (at_right x)"
    using eventually_at_right_less[of x] by (rule eventually_mono) (simp add: right)
  then have "(g \<longlongrightarrow> c) (at_right x)"
    by (rule tendsto_eventually)
  ultimately have "g x = c"
    by (rule tendsto_unique[OF trivial_limit_at_right_real])
  with ne show False by simp
qed

lemma zone2_limit:
  fixes fT sT k c :: real
  assumes "fT < sT"
  shows "isCont (\<lambda>m. c + (m - fT) / (sT - fT) * k) x"
    and "c + (sT - fT) / (sT - fT) * k = c + k"
  using assms by (simp_all add: continuous_intros)

text \<open>
  Claim C1, as the code has it. With \<open>freshThreshold < staleThreshold < oldThreshold\<close>
  the hue, the saturation and the lightness that \<open>getAgeColor\<close> computes are
  continuous in the minutes of inactivity at \<open>freshThreshold\<close> and at
  \<open>staleThreshold\<close>: the value at the threshold, which the lower zone gives, is the
  limit of the upper zone. At \<open>oldThreshold\<close> this holds for the hue only: the third
  zone ends there at hue 0, saturation 85 and lightness 45, every later minute has hue 0,
  saturation 80 and lightness 40, and so the saturation and the lightness are not
  continuous there.
\<close>

theorem getAgeColor_continuous_at_thresholds:
  assumes fs: "fT < sT" and so: "sT < oT"
  shows "isCont (\<lambda>m. hue (getAgeHSL m fT sT oT)) fT \<and>
         isCont (\<lambda>m. saturation (getAgeHSL m fT sT oT)) fT \<and>
         isCont (\<lambda>m. lightness (getAgeHSL m fT sT oT)) fT \<and>
         isCont (\<lambda>m. hue (getAgeHSL m fT sT oT)) sT \<and>
         isCont (\<lambda>m. saturation (getAgeHSL m fT sT oT)) sT \<and>
         isCont (\<lambda>m. lightness (getAgeHSL m fT sT oT)) sT \<and>
         isCont (\<lambda>m. hue (getAgeHSL m fT sT oT)) oT \<and>
         getAgeHSL fT fT sT oT = \<lparr>hue = 140, saturation = 70, lightness = 45\<rparr> \<and>
         getAgeHSL sT fT sT oT = \<lparr>hue = 40, saturation = 85, lightness = 50\<rparr> \<and>
         getAgeHSL oT fT sT oT = \<lparr>hue = 0, saturation = 85, lightness = 45\<rparr> \<and>
         (\<forall>m. oT < m \<longrightarrow>
            getAgeHSL m fT sT oT = \<lparr>hue = 0, saturation = 80, lightness = 40\<rparr>) \<and>
         \<not> isCont (\<lambda>m. saturation (getAgeHSL m fT sT oT)) oT \<and>
         \<not> isCont (\<lambda>m. lightness (getAgeHSL m fT sT oT)) oT"
proof -
  let ?g = "\<lambda>m. getAgeHSL m fT sT oT"
  have z1: "\<And>m. fT - 1 < m \<Longrightarrow> m \<le> fT \<Longrightarrow> ?g m = \<lparr>hue = 140, saturation = 70, lightness = 45\<rparr>"
    by (simp add: getAgeHSL_zone1)
  have z2: "\<And>m. fT < m \<Longrightarrow> m \<le> sT \<Longrightarrow> ?g m =
      \<lparr>hue = 140 + (m - fT) / (sT - fT) * (- 100),
       saturation = 70 + (m - fT) / (sT - fT) * 15,
       lightness = 45 + (m - fT) / (sT - fT) * 5\<rparr>"
    by (simp add: getAgeHSL_zone2)
  have z3: "\<And>m. sT < m \<Longrightarrow> m \<le> oT \<Longrightarrow> ?g m =
      \<lparr>hue = 40 + (m - sT) / (oT - sT) * (- 40),
       saturation = 85,
       lightness = 50 + (m - sT) / (oT - sT) * (- 5)\<rparr>"
    using fs by (simp add: getAgeHSL_zone3)
  have z4: "\<And>m. oT < m \<Longrightarrow> ?g m = \<lparr>hue = 0, saturation = 80, lightness = 40\<rparr>"
    using fs so by (simp add: getAgeHSL_zone4)
  have f1: "fT - 1 < fT" by simp
  have o1: "oT < oT + 1" by simp
  note c2 = zone2_limit(1)[OF fs] and c3 = zone2_limit(1)[OF so]
  have e2: "\<And>c k. c + (sT - fT) / (sT - fT) * k = c + k"
    and e3: "\<And>c k. c + (oT - sT) / (oT - sT) * k = c + k"
    using fs so by simp_all
  have hf: "isCont (\<lambda>m. hue (?g m)) fT"
  proof (rule isCont_glue[OF f1 fs, where l = "\<lambda>m. 140"
          and r = "\<lambda>m. 140 + (m - fT) / (sT - fT) * (- 100)"])
    show "isCont (\<lambda>m. 140 + (m - fT) / (sT - fT) * (- 100)) fT" by (rule c2)
  qed (simp_all add: z1 z2)
  have sf: "isCont (\<lambda>m. saturation (?g m)) fT"
  proof (rule isCont_glue[OF f1 fs, where l = "\<lambda>m. 70"
          and r = "\<lambda>m. 70 + (m - fT) / (sT - fT) * 15"])
    show "isCont (\<lambda>m. 70 + (m - fT) / (sT - fT) * 15) fT" by (rule c2)
  qed (simp_all add: z1 z2)
  have lf: "isCont (\<lambda>m. lightness (?g m)) fT"
  proof (rule isCont_glue[OF f1 fs, where l = "\<lambda>m. 45"
          and r = "\<lambda>m. 45 + (m - fT) / (sT - fT) * 5"])
    show "isCont (\<lambda>m. 45 + (m - fT) / (sT - fT) * 5) fT" by (rule c2)
  qed (simp_all add: z1 z2)
  have hs: "isCont (\<lambda>m. hue (?g m)) sT"
  proof (rule isCont_glue[OF fs so, where l = "\<lambda>m. 140 + (m - fT) / (sT - fT) * (- 100)"
          and r = "\<lambda>m. 40 + (m - sT) / (oT - sT) * (- 40)"])
    show "isCont (\<lambda>m. 140 + (m - fT) / (sT - fT) * (- 100)) sT" by (rule c2)
    show "isCont (\<lambda>m. 40 + (m - sT) / (oT - sT) * (- 40)) sT" by (rule c3)
    show "140 + (sT - fT) / (sT - fT) * (- 100) = 40 + (sT - sT) / (oT - sT) * (- 40)"
      unfolding e2 by simp
  qed (simp_all add: z2 z3)
  have ss: "isCont (\<lambda>m. saturation (?g m)) sT"
  proof (rule isCont_glue[OF fs so, where l = "\<lambda>m. 70 + (m - fT) / (sT - fT) * 15"
          and r = "\<lambda>m. 85"])
    show "isCont (\<lambda>m. 70 + (m - fT) / (sT - fT) * 15) sT" by (rule c2)
    show "70 + (sT - fT) / (sT - fT) * 15 = (85::real)"
      unfolding e2 by simp
  qed (simp_all add: z2 z3)
  have ls: "isCont (\<lambda>m. lightness (?g m)) sT"
  proof (rule isCont_glue[OF fs so, where l = "\<lambda>m. 45 + (m - fT) / (sT - fT) * 5"
          and r = "\<lambda>m. 50 + (m - sT) / (oT - sT) * (- 5)"])
    show "isCont (\<lambda>m. 45 + (m - fT) / (sT - fT) * 5) sT" by (rule c2)
    show "isCont (\<lambda>m. 50 + (m - sT) / (oT - sT) * (- 5)) sT" by (rule c3)
    show "45 + (sT - fT) / (sT - fT) * 5 = 50 + (sT - sT) / (oT - sT) * (- 5)"
      unfolding e2 by simp
  qed (simp_all add: z2 z3)
  have ho: "isCont (\<lambda>m. hue (?g m)) oT"
  proof (rule isCont_glue[OF so o1, where l = "\<lambda>m. 40 + (m - sT) / (oT - sT) * (- 40)"
          and r = "\<lambda>m. 0"])
    show "isCont (\<lambda>m. 40 + (m - sT) / (oT - sT) * (- 40)) oT" by (rule c3)
    show "40 + (oT - sT) / (oT - sT) * (- 40) = (0::real)"
      unfolding e3 by simp
  qed (simp_all add: z3 z4)
  have vf: "?g fT = \<lparr>hue = 140, saturation = 70, lightness = 45\<rparr>"
    by (simp add: getAgeHSL_zone1)
  have vs: "?g sT = \<lparr>hue = 40, saturation = 85, lightness = 50\<rparr>"
    using fs unfolding z2[OF fs order_refl] e2 by simp
  have vo: "?g oT = \<lparr>hue = 0, saturation = 85, lightness = 45\<rparr>"
    using so unfolding z3[OF so order_refl] e3 by simp
  have va: "\<forall>m. oT < m \<longrightarrow> ?g m = \<lparr>hue = 0, saturation = 80, lightness = 40\<rparr>"
    by (simp add: z4)
  have js: "\<not> isCont (\<lambda>m. saturation (?g m)) oT"
    by (rule not_isCont_jump[where c = 80]) (simp_all add: z4 vo)
  have jl: "\<not> isCont (\<lambda>m. lightness (?g m)) oT"
    by (rule not_isCont_jump[where c = 40]) (simp_all add: z4 vo)
  from hf sf lf hs ss ls ho vf vs vo va js jl show ?thesis by (simp only: simp_thms)
qed

theorem getAgeColor_continuous_at_thresholds_witness:
  "(30::real) < 120 \<and> (120::real) < 480 \<and>
   isCont (\<lambda>m. hue (getAgeHSL m 30 120 480)) 30 \<and>
   isCont (\<lambda>m. saturation (getAgeHSL m 30 120 480)) 30 \<and>
   isCont (\<lambda>m. lightness (getAgeHSL m 30 120 480)) 30 \<and>
   isCont (\<lambda>m. hue (getAgeHSL m 30 120 480)) 120 \<and>
   isCont (\<lambda>m. saturation (getAgeHSL m 30 120 480)) 120 \<and>
   isCont (\<lambda>m. lightness (getAgeHSL m 30 120 480)) 120 \<and>
   isCont (\<lambda>m. hue (getAgeHSL m 30 120 480)) 480 \<and>
   getAgeHSL 30 30 120 480 = \<lparr>hue = 140, saturation = 70, lightness = 45\<rparr> \<and>
   getAgeHSL 120 30 120 480 = \<lparr>hue = 40, saturation = 85, lightness = 50\<rparr> \<and>
   getAgeHSL 480 30 120 480 = \<lparr>hue = 0, saturation = 85, lightness = 45\<rparr> \<and>
   (480::real) < 500 \<and>
   getAgeHSL 500 30 120 480 = \<lparr>hue = 0, saturation = 80, lightness = 40\<rparr> \<and>
   \<not> isCont (\<lambda>m. saturation (getAgeHSL m 30 120 480)) 480 \<and>
   \<not> isCont (\<lambda>m. lightness (getAgeHSL m 30 120 480)) 480"
proof -
  have a: "(30::real) < 120" and b: "(120::real) < 480" and c: "(480::real) < 500"
    by simp_all
  note inst = getAgeColor_continuous_at_thresholds[OF a b]
  from inst c have d: "getAgeHSL 500 30 120 480 = \<lparr>hue = 0, saturation = 80, lightness = 40\<rparr>"
    by blast
  from inst a b c d show ?thesis
    by (simp only: simp_thms)
qed

text \<open>
  Where continuity fails. With the thresholds 30, 120 and 480 the third zone ends at
  saturation 85 and lightness 45, and every later minute has saturation 80 and lightness
  40: both jump at \<open>oldThreshold\<close>. With \<open>freshThreshold = staleThreshold = 30\<close>
  the second zone is empty and the saturation jumps from 70 to 85 at that threshold.
\<close>

theorem getAgeColor_jump_at_oldThreshold:
  "getAgeHSL 480 30 120 480 = \<lparr>hue = 0, saturation = 85, lightness = 45\<rparr> \<and>
   getAgeHSL 481 30 120 480 = \<lparr>hue = 0, saturation = 80, lightness = 40\<rparr> \<and>
   \<not> isCont (\<lambda>m. saturation (getAgeHSL m 30 120 480)) 480 \<and>
   \<not> isCont (\<lambda>m. lightness (getAgeHSL m 30 120 480)) 480 \<and>
   getAgeHSL 30 30 30 480 = \<lparr>hue = 140, saturation = 70, lightness = 45\<rparr> \<and>
   \<not> isCont (\<lambda>m. saturation (getAgeHSL m 30 30 480)) 30"
proof -
  have v: "getAgeHSL 480 30 120 480 = \<lparr>hue = 0, saturation = 85, lightness = 45\<rparr>"
    and w: "getAgeHSL 481 30 120 480 = \<lparr>hue = 0, saturation = 80, lightness = 40\<rparr>"
    and u: "getAgeHSL 30 30 30 480 = \<lparr>hue = 140, saturation = 70, lightness = 45\<rparr>"
    by (simp_all add: getAgeHSL_def)
  have z4: "\<And>m. 480 < m \<Longrightarrow> getAgeHSL m 30 120 480 = \<lparr>hue = 0, saturation = 80, lightness = 40\<rparr>"
    by (simp add: getAgeHSL_zone4)
  have s: "\<not> isCont (\<lambda>m. saturation (getAgeHSL m 30 120 480)) 480"
    by (rule not_isCont_jump[where c = 80]) (simp_all add: z4 v)
  have l: "\<not> isCont (\<lambda>m. lightness (getAgeHSL m 30 120 480)) 480"
    by (rule not_isCont_jump[where c = 40]) (simp_all add: z4 v)
  have e: "\<not> isCont (\<lambda>m. saturation (getAgeHSL m 30 30 480)) 30"
  proof
    assume c: "isCont (\<lambda>m. saturation (getAgeHSL m 30 30 480)) 30"
    have "eventually (\<lambda>m. m \<in> {30<..<480}) (at_right (30::real))"
      by (rule eventually_at_right_real) simp
    then have "eventually (\<lambda>m. saturation (getAgeHSL m 30 30 480) = 85) (at_right 30)"
      by (rule eventually_mono) (simp add: getAgeHSL_def Let_def)
    then have "((\<lambda>m. saturation (getAgeHSL m 30 30 480)) \<longlongrightarrow> 85) (at_right 30)"
      by (rule tendsto_eventually)
    moreover from c have "((\<lambda>m. saturation (getAgeHSL m 30 30 480)) \<longlongrightarrow>
        saturation (getAgeHSL 30 30 30 480)) (at_right 30)"
      unfolding isCont_def by (simp add: filterlim_at_split)
    ultimately have "saturation (getAgeHSL 30 30 30 480) = 85"
      by (rule tendsto_unique[OF trivial_limit_at_right_real, rotated])
    then show False by (simp add: u)
  qed
  from v w s l u e show ?thesis by (simp only: simp_thms)
qed

end
